theory Spec2Isabelle
  imports Main "HOL-Library.Char_ord" "HOL-Library.List_Lexorder" "HOL-Library.Multiset"
    "HOL-Library.Code_Target_Nat"
begin

section \<open>Strings and the operating-system layer used by remind.py\<close>

text \<open>
  A Python \<^verbatim>\<open>str\<close> is the list of its code points: the lines read from standard input,
  the text of files, the tokens of a template and the identifiers in them are of this
  kind, since the program asks of their characters whether they are white space or word
  characters. \<open>asc\<close> writes an ASCII literal as code points.

  Paths and the names in them are kept as lists of 8-bit characters, the bytes of their
  UTF-8 form. The program joins them, splits them at slashes, compares them with ASCII
  constants and sorts them; each of these gives on the bytes what it gives on the code
  points.
\<close>

type_synonym pystr = "nat list"

definition asc :: "string \<Rightarrow> pystr" where
  "asc s = map of_char s"

text \<open>
  The program talks to the file system through \<^verbatim>\<open>os.listdir\<close>, \<^verbatim>\<open>os.path.isdir\<close>,
  \<^verbatim>\<open>os.path.isfile\<close>, \<^verbatim>\<open>os.path.exists\<close>, \<^verbatim>\<open>os.path.join\<close>, \<^verbatim>\<open>os.remove\<close>,
  \<^verbatim>\<open>os.makedirs\<close> and \<^verbatim>\<open>shutil.rmtree\<close>. The file system is a tree without links
  and without permissions: a call fails only for the kind or the absence of what a path
  names. A directory keeps its entries in the order \<^verbatim>\<open>os.listdir\<close> reports them, which is
  whatever the operating system chooses. Paths are strings, as in the source; they are
  resolved from the tree's root (the process is taken to run with the root as working
  directory, so a leading slash changes nothing), component by component: an empty or
  \<^verbatim>\<open>.\<close> component stays where it is, \<^verbatim>\<open>..\<close> goes to the parent (the root is its own
  parent), any other component is looked up among the entries of the directory reached
  so far. A regular file holds its text as \<^verbatim>\<open>open(path).read()\<close> returns it. What git
  keeps inside its directory \<^verbatim>\<open>.git\<close> and the byte-code caches the import system writes
  beside a dynamic unit are not shown in the tree.
\<close>

datatype node = File pystr | Dir "(string \<times> node) list"

datatype error =
    NotFound          \<comment> \<open>\<^verbatim>\<open>sys.exit(1)\<close> after "Found no match for ..."\<close>
  | Ambiguous         \<comment> \<open>\<^verbatim>\<open>sys.exit(1)\<close> after "Found more than one match ..."\<close>
  | NotebookMissing   \<comment> \<open>\<^verbatim>\<open>sys.exit(1)\<close> after "Notebook ... does not exist"\<close>
  | UnableToFind      \<comment> \<open>\<^verbatim>\<open>sys.exit(1)\<close> after "Unable to find note"\<close>
  | ValueError        \<comment> \<open>uncaught: unpacking a list that has not two items\<close>
  | OSError           \<comment> \<open>uncaught: a file-system call on a path of the wrong kind\<close>
  | TypeError         \<comment> \<open>uncaught: \<^verbatim>\<open>"".join\<close> over an item that is not a string\<close>
  | EOFError          \<comment> \<open>uncaught: \<^verbatim>\<open>input()\<close> at the end of standard input\<close>
  | LoadError         \<comment> \<open>uncaught: the dynamic unit raised while being executed\<close>

text \<open>\<^verbatim>\<open>s.split(c)\<close> of Python: the pieces between the occurrences of \<open>c\<close>.\<close>

fun split_on :: "char \<Rightarrow> string \<Rightarrow> string list" where
  "split_on c [] = [[]]"
| "split_on c (x # xs) =
     (if x = c then [] # split_on c xs
      else (case split_on c xs of [] \<Rightarrow> [[x]] | y # ys \<Rightarrow> (x # y) # ys))"

text \<open>\<^verbatim>\<open>s.startswith(p)\<close>.\<close>

fun startswith :: "'a list \<Rightarrow> 'a list \<Rightarrow> bool" where
  "startswith s [] = True"
| "startswith [] (p # ps) = False"
| "startswith (x # xs) (p # ps) = (x = p \<and> startswith xs ps)"

text \<open>\<^verbatim>\<open>s.endswith(c)\<close> for a single character.\<close>

definition endswith_char :: "string \<Rightarrow> char \<Rightarrow> bool" where
  "endswith_char s c = (s \<noteq> [] \<and> last s = c)"

text \<open>
  \<^verbatim>\<open>os.path.join(a, b)\<close> of posixpath: an absolute \<open>b\<close> replaces \<open>a\<close>; otherwise the two
  are joined with one slash unless \<open>a\<close> is empty or already ends with one.
\<close>

definition join :: "string \<Rightarrow> string \<Rightarrow> string" where
  "join a b =
     (if startswith b ''/'' then b
      else if a = [] \<or> endswith_char a (CHR ''/'') then a @ b
      else a @ ''/'' @ b)"

text \<open>The components of a path that move: all but the empty ones and \<^verbatim>\<open>.\<close>.\<close>

definition comps :: "string \<Rightarrow> string list" where
  "comps p = filter (\<lambda>c. c \<noteq> [] \<and> c \<noteq> ''.'') (split_on (CHR ''/'') p)"

text \<open>A path whose last component is empty or \<^verbatim>\<open>.\<close> can only name a directory.\<close>

definition dirmark :: "string \<Rightarrow> bool" where
  "dirmark p = (last (split_on (CHR ''/'') p) = [] \<or> last (split_on (CHR ''/'') p) = ''.'')"

text \<open>The node at the end of a list of entry names, from a node downwards.\<close>

fun walk :: "node \<Rightarrow> string list \<Rightarrow> node option" where
  "walk n [] = Some n"
| "walk (File _) (c # cs) = None"
| "walk (Dir es) (c # cs) = (case map_of es c of None \<Rightarrow> None | Some m \<Rightarrow> walk m cs)"

text \<open>
  Resolution of the components \<open>cs\<close> from the directory whose entry names from the root
  are \<open>acc\<close>: the entry names from the root of what the path names, if every step
  succeeds. A step needs a directory to start from.
\<close>

fun canon :: "node \<Rightarrow> string list \<Rightarrow> string list \<Rightarrow> string list option" where
  "canon fs acc [] = Some acc"
| "canon fs acc (c # cs) =
     (case walk fs acc of
        Some (Dir es) \<Rightarrow>
          (if c = ''..'' then canon fs (butlast acc) cs
           else (case map_of es c of
                   None \<Rightarrow> None
                 | Some m \<Rightarrow> canon fs (acc @ [c]) cs))
      | _ \<Rightarrow> None)"

definition realpath :: "node \<Rightarrow> string \<Rightarrow> string list option" where
  "realpath fs p = canon fs [] (comps p)"

definition lookup :: "node \<Rightarrow> string \<Rightarrow> node option" where
  "lookup fs p =
     (if p = [] then None
      else (case realpath fs p of
              None \<Rightarrow> None
            | Some cp \<Rightarrow>
                (case walk fs cp of
                   Some (File x) \<Rightarrow> (if dirmark p then None else Some (File x))
                 | r \<Rightarrow> r)))"

definition exists :: "node \<Rightarrow> string \<Rightarrow> bool" where
  "exists fs p = (lookup fs p \<noteq> None)"

definition isfile :: "node \<Rightarrow> string \<Rightarrow> bool" where
  "isfile fs p = (case lookup fs p of Some (File _) \<Rightarrow> True | _ \<Rightarrow> False)"

definition isdir :: "node \<Rightarrow> string \<Rightarrow> bool" where
  "isdir fs p = (case lookup fs p of Some (Dir _) \<Rightarrow> True | _ \<Rightarrow> False)"

definition listdir :: "node \<Rightarrow> string \<Rightarrow> error + string list" where
  "listdir fs p = (case lookup fs p of Some (Dir es) \<Rightarrow> Inr (map fst es) | _ \<Rightarrow> Inl OSError)"

section \<open>Notebooks and notes\<close>

record notebook =
  nb_tld :: string
  nb_name :: string
  nb_path :: string

record note_obj =
  note_name :: string
  note_notebook :: notebook
  note_path :: string

text \<open>\<^verbatim>\<open>check_directory\<close>: \<^verbatim>\<open>os.path.exists\<close>, true of a regular file as well.\<close>

definition check_directory :: "node \<Rightarrow> string \<Rightarrow> bool" where
  "check_directory fs directory = exists fs directory"

text \<open>
  \<^verbatim>\<open>Notebook(tld, notebook)\<close> with \<^verbatim>\<open>prompt_create=False\<close>, the only way the lookup,
  listing and deletion paths construct one: \<^verbatim>\<open>_assert_existence\<close> leaves the process
  when the path does not exist.
\<close>

definition Notebook :: "node \<Rightarrow> string \<Rightarrow> string \<Rightarrow> error + notebook" where
  "Notebook fs tld name =
     (let path = join tld name in
      if check_directory fs path
      then Inr \<lparr>nb_tld = tld, nb_name = name, nb_path = path\<rparr>
      else Inl NotebookMissing)"

definition Note :: "notebook \<Rightarrow> string \<Rightarrow> note_obj" where
  "Note nb name = \<lparr>note_name = name, note_notebook = nb, note_path = join (nb_path nb) name\<rparr>"

text \<open>\<^verbatim>\<open>Notebook.find\<close>.\<close>

definition find :: "node \<Rightarrow> notebook \<Rightarrow> string \<Rightarrow> note_obj option" where
  "find fs nb n = (if isfile fs (join (nb_path nb) n) then Some (Note nb n) else None)"

text \<open>\<^verbatim>\<open>Notebook.sift\<close>: Python's \<^verbatim>\<open>sorted\<close> on strings compares code points.\<close>

definition sift :: "node \<Rightarrow> notebook \<Rightarrow> error + note_obj list" where
  "sift fs nb =
     (case listdir fs (nb_path nb) of
        Inl e \<Rightarrow> Inl e
      | Inr fsn \<Rightarrow> Inr (map (Note nb) (sort fsn)))"

text \<open>
  \<^verbatim>\<open>Notebook.discover\<close>: the loop over \<^verbatim>\<open>os.listdir(tld)\<close>, in the order of the listing.
  The filter \<open>filt\<close> is \<^verbatim>\<open>None\<close> or a predicate on names.
\<close>

fun discover_loop ::
  "node \<Rightarrow> string \<Rightarrow> (string \<Rightarrow> bool) option \<Rightarrow> string list \<Rightarrow> error + notebook list" where
  "discover_loop fs tld filt [] = Inr []"
| "discover_loop fs tld filt (d # ds) =
     (if \<not> isdir fs (join tld d) then discover_loop fs tld filt ds
      else if startswith d ''.'' \<or> d = ''templates'' then discover_loop fs tld filt ds
      else if (case filt of None \<Rightarrow> True | Some f \<Rightarrow> f d)
      then (case Notebook fs tld d of
              Inl e \<Rightarrow> Inl e
            | Inr nb \<Rightarrow> (case discover_loop fs tld filt ds of
                           Inl e \<Rightarrow> Inl e
                         | Inr nbs \<Rightarrow> Inr (nb # nbs)))
      else discover_loop fs tld filt ds)"

definition discover :: "node \<Rightarrow> string \<Rightarrow> (string \<Rightarrow> bool) option \<Rightarrow> error + notebook list" where
  "discover fs tld filt =
     (case listdir fs tld of Inl e \<Rightarrow> Inl e | Inr ds \<Rightarrow> discover_loop fs tld filt ds)"

text \<open>\<^verbatim>\<open>Notebook.search\<close>.\<close>

fun search_loop :: "node \<Rightarrow> string \<Rightarrow> notebook list \<Rightarrow> note_obj list" where
  "search_loop fs n [] = []"
| "search_loop fs n (nb # nbs) =
     (case find fs nb n of
        Some m \<Rightarrow> m # search_loop fs n nbs
      | None \<Rightarrow> search_loop fs n nbs)"

definition search :: "node \<Rightarrow> string \<Rightarrow> string \<Rightarrow> error + note_obj list" where
  "search fs tld n =
     (case discover fs tld None of Inl e \<Rightarrow> Inl e | Inr nbs \<Rightarrow> Inr (search_loop fs n nbs))"

text \<open>
  \<^verbatim>\<open>s.rsplit(c, n)\<close>: at most \<open>n\<close> splits, counted from the right. It is the mirror image
  of splitting the reversed string from the left.
\<close>

fun split_max :: "char \<Rightarrow> nat \<Rightarrow> string \<Rightarrow> string list" where
  "split_max c 0 s = [s]"
| "split_max c (Suc n) s =
     (if c \<in> set s
      then takeWhile (\<lambda>x. x \<noteq> c) s # split_max c n (tl (dropWhile (\<lambda>x. x \<noteq> c) s))
      else [s])"

definition rsplit :: "char \<Rightarrow> nat \<Rightarrow> string \<Rightarrow> string list" where
  "rsplit c n s = rev (map rev (split_max c n (rev s)))"

text \<open>\<^verbatim>\<open>xs[-2:]\<close>: the last two items, or all of a shorter list.\<close>

definition last_two :: "'a list \<Rightarrow> 'a list" where
  "last_two xs = drop (length xs - 2) xs"

text \<open>\<^verbatim>\<open>notebook, note = ...\<close>: unpacking raises unless there are exactly two items.\<close>

fun unpack_pair :: "'a list \<Rightarrow> error + ('a \<times> 'a)" where
  "unpack_pair [a, b] = Inr (a, b)"
| "unpack_pair _ = Inl ValueError"

text \<open>
  \<^verbatim>\<open>find_note(tld, note, notebook=None)\<close>. The hint is \<^verbatim>\<open>None\<close> or a string, and
  \<^verbatim>\<open>if notebook\<close> holds of a string that is not empty. The notebook read off a name
  with a slash is bound and not used again: the search below runs on the note alone.
\<close>

definition truthy :: "string option \<Rightarrow> bool" where
  "truthy h = (case h of None \<Rightarrow> False | Some s \<Rightarrow> s \<noteq> [])"

definition find_note :: "node \<Rightarrow> string \<Rightarrow> string \<Rightarrow> string option \<Rightarrow> error + note_obj option" where
  "find_note fs tld n hint =
     (if truthy hint
      then (case Notebook fs tld (case hint of Some h \<Rightarrow> h | None \<Rightarrow> []) of
              Inl e \<Rightarrow> Inl e
            | Inr nb \<Rightarrow> Inr (find fs nb n))
      else (case (if CHR ''/'' \<in> set n
                  then (case unpack_pair (last_two (rsplit (CHR ''/'') 2 n)) of
                          Inl e \<Rightarrow> Inl e
                        | Inr (nbk, n') \<Rightarrow> Inr n')
                  else Inr n) of
              Inl e \<Rightarrow> Inl e
            | Inr n' \<Rightarrow>
                (case search fs tld n' of
                   Inl e \<Rightarrow> Inl e
                 | Inr matches \<Rightarrow>
                     if matches = [] then Inl NotFound
                     else if length matches > 1 then Inl Ambiguous
                     else Inr (Some (matches ! 0)))))"

text \<open>The notebook record that \<^verbatim>\<open>Notebook(tld, d)\<close> builds when it returns.\<close>

definition mk_notebook :: "string \<Rightarrow> string \<Rightarrow> notebook" where
  "mk_notebook tld d = \<lparr>nb_tld = tld, nb_name = d, nb_path = join tld d\<rparr>"

section \<open>Standard input and the prompts\<close>

text \<open>
  The state the program acts on: the file system and the lines still to be read from
  standard input.
\<close>

record world =
  w_fs :: node
  w_stdin :: "pystr list"

text \<open>
  \<^verbatim>\<open>str.isspace\<close>, which is also the class \<^verbatim>\<open>\s\<close> of \<^verbatim>\<open>re\<close> on a \<^verbatim>\<open>str\<close> and what
  \<^verbatim>\<open>str.strip\<close> removes: tab to carriage return, the four separators 28 to 31, the
  blank, next line, the no-break space, the Ogham space mark, the spaces U+2000 to U+200A,
  the line and the paragraph separator, the narrow no-break space, the medium
  mathematical space and the ideographic space.
\<close>

definition isspace :: "nat \<Rightarrow> bool" where
  "isspace c =
     ((9 \<le> c \<and> c \<le> 13) \<or> (28 \<le> c \<and> c \<le> 32) \<or> c = 133 \<or> c = 160 \<or> c = 5760
      \<or> (8192 \<le> c \<and> c \<le> 8202) \<or> c = 8232 \<or> c = 8233 \<or> c = 8239 \<or> c = 8287
      \<or> c = 12288)"

text \<open>\<^verbatim>\<open>s.strip()\<close>.\<close>

definition strip :: "pystr \<Rightarrow> pystr" where
  "strip s = rev (dropWhile isspace (rev (dropWhile isspace s)))"

text \<open>
  \<^verbatim>\<open>yesno(message, default="yes")\<close>: \<^verbatim>\<open>prompt\<close> reads a line and strips it; the loop asks
  again until the answer is empty or starts with y or n, in either case (no other
  character matches these two when case is ignored). The message is only printed.
  Reading past the end of the input raises.
\<close>

fun yesno_loop :: "string \<Rightarrow> pystr list \<Rightarrow> (error + bool) \<times> pystr list" where
  "yesno_loop dflt [] = (Inl EOFError, [])"
| "yesno_loop dflt (l # ls) =
     (let response = strip l in
      if response = [] then (Inr True, ls)
      else if startswith response (asc ''y'') \<or> startswith response (asc ''Y'')
      then (Inr (dflt = ''yes''), ls)
      else if startswith response (asc ''n'') \<or> startswith response (asc ''N'')
      then (Inr (dflt = ''no''), ls)
      else yesno_loop dflt ls)"

definition yesno :: "string \<Rightarrow> pystr list \<Rightarrow> (error + bool) \<times> pystr list" where
  "yesno dflt inp =
     (if dflt \<noteq> ''yes'' \<and> dflt \<noteq> ''no'' then (Inl ValueError, inp) else yesno_loop dflt inp)"

text \<open>
  A new, empty directory \<open>c\<close> in the directory with the entry names \<open>acc\<close>. Where a new
  entry appears in its parent's listing is the operating system's choice; here it is
  the end.
\<close>

fun add_dir :: "node \<Rightarrow> string list \<Rightarrow> string \<Rightarrow> node" where
  "add_dir (Dir es) [] c = Dir (es @ [(c, Dir [])])"
| "add_dir (Dir es) (a # as) c =
     Dir (map (\<lambda>(k, v). if k = a then (k, add_dir v as c) else (k, v)) es)"
| "add_dir (File x) as c = File x"

text \<open>
  \<^verbatim>\<open>os.makedirs(path, exist_ok=True)\<close>: the path is followed as in resolution, and a
  component that is missing is created and entered; a regular file on the way or at
  the end is an error.
\<close>

fun mkdirs :: "node \<Rightarrow> string list \<Rightarrow> string list \<Rightarrow> node option" where
  "mkdirs fs acc [] = (case walk fs acc of Some (Dir es) \<Rightarrow> Some fs | _ \<Rightarrow> None)"
| "mkdirs fs acc (c # cs) =
     (case walk fs acc of
        Some (Dir es) \<Rightarrow>
          (if c = ''..'' then mkdirs fs (butlast acc) cs
           else (case map_of es c of
                   None \<Rightarrow> mkdirs (add_dir fs acc c) (acc @ [c]) cs
                 | Some m \<Rightarrow> mkdirs fs (acc @ [c]) cs))
      | _ \<Rightarrow> None)"

definition makedirs :: "node \<Rightarrow> string \<Rightarrow> error + node" where
  "makedirs fs p =
     (if p = [] then Inl OSError
      else (case mkdirs fs [] (comps p) of None \<Rightarrow> Inl OSError | Some fs' \<Rightarrow> Inr fs'))"

text \<open>\<^verbatim>\<open>create_directory\<close>: asks, then creates.\<close>

definition create_directory :: "world \<Rightarrow> string \<Rightarrow> (error + bool) \<times> world" where
  "create_directory w directory =
     (case yesno ''yes'' (w_stdin w) of
        (Inl e, inp) \<Rightarrow> (Inl e, w\<lparr>w_stdin := inp\<rparr>)
      | (Inr False, inp) \<Rightarrow> (Inr False, w\<lparr>w_stdin := inp\<rparr>)
      | (Inr True, inp) \<Rightarrow>
          (case makedirs (w_fs w) directory of
             Inl e \<Rightarrow> (Inl e, w\<lparr>w_stdin := inp\<rparr>)
           | Inr fs' \<Rightarrow> (Inr True, \<lparr>w_fs = fs', w_stdin = inp\<rparr>)))"

section \<open>Templates\<close>

text \<open>
  The dynamic unit is a Python module. What rendering sees of it is what \<^verbatim>\<open>getattr\<close>
  finds on the module object, for the names the unit binds and for the attributes every
  module object has: nothing, or something that cannot be called, or a callable, which
  for the notebook and the note's name raises or returns a value, a string or something
  else. A call is taken to finish, to depend on its arguments alone and to leave the
  file system and the standard input as they are.
\<close>

datatype pyval = PyStr pystr | PyOther

datatype call_result = Raises | Returns pyval

datatype attr = NotCallable | Callable "notebook \<Rightarrow> string \<Rightarrow> call_result"

type_synonym runner = "pystr \<Rightarrow> attr option"

record template =
  t_tld :: string
  t_notebook :: notebook
  t_dir :: string
  t_prompt_create :: bool
  t_resolved :: bool
  t_template :: "pystr option"
  t_runner :: "runner option"

text \<open>
  \<^verbatim>\<open>Template.__init__\<close>; \<open>env_dir\<close> is the value of \<^verbatim>\<open>REMIND_TEMPLATE_DIR\<close> in the
  environment, if set.
\<close>

definition Template :: "string option \<Rightarrow> notebook \<Rightarrow> bool \<Rightarrow> template" where
  "Template env_dir nb prompt_create =
     \<lparr>t_tld = nb_tld nb, t_notebook = nb,
      t_dir = (case env_dir of Some d \<Rightarrow> d | None \<Rightarrow> join (nb_tld nb) ''templates''),
      t_prompt_create = prompt_create, t_resolved = False,
      t_template = None, t_runner = None\<rparr>"

text \<open>\<^verbatim>\<open>open(path).read()\<close>.\<close>

definition read_file :: "node \<Rightarrow> string \<Rightarrow> error + pystr" where
  "read_file fs p = (case lookup fs p of Some (File x) \<Rightarrow> Inr x | _ \<Rightarrow> Inl OSError)"

text \<open>
  \<^verbatim>\<open>Template._configure\<close>. Executing the dynamic unit is the parameter \<open>py\<close>: from the
  text of the file to what \<^verbatim>\<open>getattr\<close> finds on the module object, or nothing when the
  execution raises.
\<close>

definition configure ::
  "(pystr \<Rightarrow> runner option) \<Rightarrow> node \<Rightarrow> template \<Rightarrow> string \<Rightarrow> error + (bool \<times> template)" where
  "configure py fs t name =
     (let ntd = join (t_dir t) name;
          template = join ntd (name @ ''.txt'');
          runnable = join ntd (name @ ''.py'')
      in if isfile fs template \<and> isfile fs runnable
         then (case read_file fs template of
                 Inl e \<Rightarrow> Inl e
               | Inr text \<Rightarrow>
                   (case read_file fs runnable of
                      Inl e \<Rightarrow> Inl e
                    | Inr code \<Rightarrow>
                        (case py code of
                           None \<Rightarrow> Inl LoadError
                         | Some m \<Rightarrow> Inr (True, t\<lparr>t_template := Some text, t_runner := Some m\<rparr>))))
         else Inr (False, t))"

text \<open>
  \<^verbatim>\<open>Template.create\<close>. The editor is the parameter \<open>ed\<close>: whatever it does to the file
  system when started on the two paths, or an error when it cannot be started. The
  method returns \<^verbatim>\<open>False\<close> where it gives up and nothing, that is \<^verbatim>\<open>None\<close>, after the
  editor has run.
\<close>

definition create ::
  "(string \<Rightarrow> string \<Rightarrow> node \<Rightarrow> error + node) \<Rightarrow> world \<Rightarrow> template
     \<Rightarrow> (error + bool option) \<times> world" where
  "create ed w t =
     (case yesno ''yes'' (w_stdin w) of
        (Inl e, inp) \<Rightarrow> (Inl e, w\<lparr>w_stdin := inp\<rparr>)
      | (Inr False, inp) \<Rightarrow> (Inr (Some False), w\<lparr>w_stdin := inp\<rparr>)
      | (Inr True, inp) \<Rightarrow>
          (let w1 = w\<lparr>w_stdin := inp\<rparr>;
               ntd = join (t_dir t) (nb_name (t_notebook t));
               (made, w2) = (if \<not> check_directory (w_fs w1) ntd then create_directory w1 ntd
                             else (Inr True, w1))
           in case made of
                Inl e \<Rightarrow> (Inl e, w2)
              | Inr False \<Rightarrow> (Inr (Some False), w2)
              | Inr True \<Rightarrow>
                  (let template = join ntd (nb_name (t_notebook t) @ ''.txt'');
                       runnable = join ntd (nb_name (t_notebook t) @ ''.py'')
                   in case ed template runnable (w_fs w2) of
                        Inl e \<Rightarrow> (Inl e, w2)
                      | Inr fs' \<Rightarrow> (Inr None, w2\<lparr>w_fs := fs'\<rparr>))))"

text \<open>\<^verbatim>\<open>Template._resolve\<close>.\<close>

definition resolve ::
  "(pystr \<Rightarrow> runner option) \<Rightarrow> (string \<Rightarrow> string \<Rightarrow> node \<Rightarrow> error + node) \<Rightarrow> world \<Rightarrow> template
     \<Rightarrow> error + (template \<times> world)" where
  "resolve py ed w t =
     (case configure py (w_fs w) t (nb_name (t_notebook t)) of
        Inl e \<Rightarrow> Inl e
      | Inr (configured, t1) \<Rightarrow>
          (case (if \<not> configured \<and> t_prompt_create t1
                 then (case create ed w t1 of
                         (Inl e, w1) \<Rightarrow> Inl e
                       | (Inr r, w1) \<Rightarrow>
                           if r = Some True
                           then (case configure py (w_fs w1) t1 (nb_name (t_notebook t1)) of
                                   Inl e \<Rightarrow> Inl e
                                 | Inr (c2, t2) \<Rightarrow> Inr (c2, t2, w1))
                           else Inr (configured, t1, w1))
                 else Inr (configured, t1, w)) of
             Inl e \<Rightarrow> Inl e
           | Inr (configured', t2, w2) \<Rightarrow>
               (case (if \<not> configured' then configure py (w_fs w2) t2 ''default''
                      else Inr (True, t2)) of
                  Inl e \<Rightarrow> Inl e
                | Inr (c3, t3) \<Rightarrow> Inr (t3\<lparr>t_resolved := True\<rparr>, w2))))"

text \<open>
  The class \<^verbatim>\<open>\w\<close> of \<^verbatim>\<open>re\<close> on a \<^verbatim>\<open>str\<close>: the underscore and what \<^verbatim>\<open>str.isalnum\<close>
  holds of. Up to 127 these are the digits and the letters. Above, the answer is read
  off the Unicode character database of the interpreter; it is the parameter \<open>alnum\<close>.
\<close>

definition isword :: "(nat \<Rightarrow> bool) \<Rightarrow> nat \<Rightarrow> bool" where
  "isword alnum c =
     (c = 95 \<or> (48 \<le> c \<and> c \<le> 57) \<or> (65 \<le> c \<and> c \<le> 90) \<or> (97 \<le> c \<and> c \<le> 122)
      \<or> (128 \<le> c \<and> alnum c))"

text \<open>
  The pattern \<^verbatim>\<open>{{[\s\w]*}}\<close> at the head of a string: two opening braces, the longest
  run of white space and word characters, two closing braces. A closing brace is in
  neither class, so a shorter run cannot match where the longest does not. The result
  is the matched text and what follows it.
\<close>

definition match_placeholder :: "(nat \<Rightarrow> bool) \<Rightarrow> pystr \<Rightarrow> (pystr \<times> pystr) option" where
  "match_placeholder alnum s =
     (if startswith s (asc ''{{'')
      then (let r = drop 2 s;
                ident = takeWhile (\<lambda>c. isspace c \<or> isword alnum c) r;
                r' = dropWhile (\<lambda>c. isspace c \<or> isword alnum c) r
            in if startswith r' (asc ''}}'')
               then Some (asc ''{{'' @ ident @ asc ''}}'', drop 2 r')
               else None)
      else None)"

lemma match_placeholder_shorter:
  "match_placeholder alnum s = Some (tok, rest) \<Longrightarrow> length rest < length s"
proof -
  assume m: "match_placeholder alnum s = Some (tok, rest)"
  let ?r = "drop 2 s"
  let ?r' = "dropWhile (\<lambda>c. isspace c \<or> isword alnum c) ?r"
  from m have st: "startswith s (asc ''{{'')" and rest: "rest = drop 2 ?r'"
    by (auto simp: match_placeholder_def Let_def split: if_splits)
  from st have "2 \<le> length s"
    by (cases s; cases "tl s") (auto simp: asc_def)
  moreover have "length ?r' \<le> length ?r" by (rule length_dropWhile_le)
  ultimately show ?thesis using rest by simp
qed

text \<open>
  \<^verbatim>\<open>re.split("({{[\s\w]*}})", text)\<close>: the text is scanned from the left; at the first
  position where the pattern matches, the text before it and the matched text are
  emitted and the scan goes on behind the match. The result alternates text between
  matches and matches, starting and ending with text. \<open>lit\<close> is the text passed over
  since the last match.
\<close>

function re_split_from :: "(nat \<Rightarrow> bool) \<Rightarrow> pystr \<Rightarrow> pystr \<Rightarrow> pystr list" where
  "re_split_from alnum lit s =
     (case match_placeholder alnum s of
        Some (tok, rest) \<Rightarrow> lit # tok # re_split_from alnum [] rest
      | None \<Rightarrow> (case s of [] \<Rightarrow> [lit] | c # cs \<Rightarrow> re_split_from alnum (lit @ [c]) cs))"
  by pat_completeness auto
termination
  by (relation "measure (\<lambda>(alnum, lit, s). length s)") (auto dest: match_placeholder_shorter)

declare re_split_from.simps [simp del]

definition re_split :: "(nat \<Rightarrow> bool) \<Rightarrow> pystr \<Rightarrow> pystr list" where
  "re_split alnum text = re_split_from alnum [] text"

text \<open>\<^verbatim>\<open>Template._tokenize\<close>: no template, or an empty one, has no tokens.\<close>

definition tokenize :: "(nat \<Rightarrow> bool) \<Rightarrow> template \<Rightarrow> pystr list" where
  "tokenize alnum t =
     (case t_template t of
        None \<Rightarrow> []
      | Some text \<Rightarrow> if text \<noteq> [] then re_split alnum text else [])"

text \<open>\<^verbatim>\<open>token[2:-2]\<close>.\<close>

definition slice_2_m2 :: "pystr \<Rightarrow> pystr" where
  "slice_2_m2 token = drop 2 (take (length token - 2) token)"

text \<open>
  What \<^verbatim>\<open>getattr\<close> finds on \<^verbatim>\<open>None\<close>, the runner of a template that was never
  configured, with the attributes of CPython 3.11: \<^verbatim>\<open>__init__\<close> and
  \<^verbatim>\<open>__subclasshook__\<close> take the two arguments and return \<^verbatim>\<open>None\<close> and
  \<^verbatim>\<open>NotImplemented\<close>; \<^verbatim>\<open>__doc__\<close> cannot be called; the other methods raise on two
  arguments.
\<close>

definition none_object :: runner where
  "none_object fn =
     (if fn = asc ''__init__'' \<or> fn = asc ''__subclasshook__''
      then Some (Callable (\<lambda>nb n. Returns PyOther))
      else if fn = asc ''__doc__'' then Some NotCallable
      else if fn \<in> set (map asc
        [''__bool__'', ''__class__'', ''__delattr__'', ''__dir__'', ''__eq__'', ''__format__'',
         ''__ge__'', ''__getattribute__'', ''__getstate__'', ''__gt__'', ''__hash__'',
         ''__init_subclass__'', ''__le__'', ''__lt__'', ''__ne__'', ''__new__'', ''__reduce__'',
         ''__reduce_ex__'', ''__repr__'', ''__setattr__'', ''__sizeof__'', ''__str__''])
      then Some (Callable (\<lambda>nb n. Raises))
      else None)"

text \<open>\<^verbatim>\<open>getattr(self._runner, fn)\<close>.\<close>

definition getattr :: "runner option \<Rightarrow> pystr \<Rightarrow> attr option" where
  "getattr r fn = (case r of None \<Rightarrow> none_object fn | Some m \<Rightarrow> m fn)"

text \<open>
  The body of the loop of \<^verbatim>\<open>Template.render\<close>: what is appended to \<^verbatim>\<open>out\<close> for a
  token. Whatever is raised inside the \<^verbatim>\<open>try\<close> leaves the token as it is.
\<close>

definition render_token :: "runner option \<Rightarrow> notebook \<Rightarrow> string \<Rightarrow> pystr \<Rightarrow> pyval" where
  "render_token r nb name token =
     (if startswith token (asc ''{{'')
      then (let fn = strip (slice_2_m2 token)
            in case getattr r fn of
                 Some (Callable f) \<Rightarrow> (case f nb name of Returns v \<Rightarrow> v | Raises \<Rightarrow> PyStr token)
               | _ \<Rightarrow> PyStr token)
      else PyStr token)"

text \<open>\<^verbatim>\<open>"".join(out)\<close>: raises on an item that is not a string.\<close>

fun join_str :: "pyval list \<Rightarrow> error + pystr" where
  "join_str [] = Inr []"
| "join_str (PyStr s # vs) = (case join_str vs of Inl e \<Rightarrow> Inl e | Inr r \<Rightarrow> Inr (s @ r))"
| "join_str (PyOther # vs) = Inl TypeError"

text \<open>The list \<^verbatim>\<open>out\<close> at the end of the loop.\<close>

definition render_out :: "(nat \<Rightarrow> bool) \<Rightarrow> template \<Rightarrow> string \<Rightarrow> pyval list" where
  "render_out alnum t name =
     map (render_token (t_runner t) (t_notebook t) name) (tokenize alnum t)"

text \<open>\<^verbatim>\<open>Template.render\<close>.\<close>

definition render ::
  "(nat \<Rightarrow> bool) \<Rightarrow> (pystr \<Rightarrow> runner option) \<Rightarrow> (string \<Rightarrow> string \<Rightarrow> node \<Rightarrow> error + node)
     \<Rightarrow> world \<Rightarrow> template \<Rightarrow> note_obj \<Rightarrow> error + (pystr \<times> template \<times> world)" where
  "render alnum py ed w t nt =
     (case (if \<not> t_resolved t then resolve py ed w t else Inr (t, w)) of
        Inl e \<Rightarrow> Inl e
      | Inr (t', w') \<Rightarrow>
          (case join_str (render_out alnum t' (note_name nt)) of
             Inl e \<Rightarrow> Inl e
           | Inr s \<Rightarrow> Inr (s, t', w')))"

section \<open>Notions used to state the claims about templates\<close>

text \<open>Some substring of the text matches the placeholder pattern.\<close>

fun has_placeholder :: "(nat \<Rightarrow> bool) \<Rightarrow> pystr \<Rightarrow> bool" where
  "has_placeholder alnum [] = False"
| "has_placeholder alnum (c # cs) =
     (match_placeholder alnum (c # cs) \<noteq> None \<or> has_placeholder alnum cs)"

text \<open>
  The result of the split alternates: the items at even positions are the literal
  spans, those at odd positions the placeholder tokens.
\<close>

fun literal_spans :: "'a list \<Rightarrow> 'a list" where
  "literal_spans [] = []"
| "literal_spans [l] = [l]"
| "literal_spans (l # p # r) = l # literal_spans r"

fun placeholder_tokens :: "'a list \<Rightarrow> 'a list" where
  "placeholder_tokens [] = []"
| "placeholder_tokens [l] = []"
| "placeholder_tokens (l # p # r) = p # placeholder_tokens r"

text \<open>
  The literal spans interleaved, in the order of the document, with a value for each
  placeholder token.
\<close>

fun interleave :: "(pystr \<Rightarrow> pystr) \<Rightarrow> pystr list \<Rightarrow> pystr" where
  "interleave val [] = []"
| "interleave val [l] = l"
| "interleave val (l # p # r) = l @ val p @ interleave val r"

text \<open>
  The trimmed identifier of a token does not resolve to a callable of the dynamic unit,
  or the call raises.
\<close>

definition call_fails :: "runner option \<Rightarrow> notebook \<Rightarrow> string \<Rightarrow> pystr \<Rightarrow> bool" where
  "call_fails r nb name token =
     (case getattr r (strip (slice_2_m2 token)) of
        None \<Rightarrow> True
      | Some NotCallable \<Rightarrow> True
      | Some (Callable f) \<Rightarrow> f nb name = Raises)"

text \<open>The trimmed identifier of a token resolves to a callable that returns \<open>v\<close>.\<close>

definition call_returns :: "runner option \<Rightarrow> notebook \<Rightarrow> string \<Rightarrow> pystr \<Rightarrow> pyval \<Rightarrow> bool" where
  "call_returns r nb name token v =
     (case getattr r (strip (slice_2_m2 token)) of
        Some (Callable f) \<Rightarrow> f nb name = Returns v
      | _ \<Rightarrow> False)"

text \<open>Both files of the template pair of \<open>name\<close> are present under \<open>dir\<close>.\<close>

definition pair_present :: "node \<Rightarrow> string \<Rightarrow> string \<Rightarrow> bool" where
  "pair_present fs dir name =
     (isfile fs (join (join dir name) (name @ ''.txt''))
      \<and> isfile fs (join (join dir name) (name @ ''.py'')))"

text \<open>Resolution by the pair of the notebook named \<^verbatim>\<open>default\<close> alone.\<close>

definition default_fallback ::
  "(pystr \<Rightarrow> runner option) \<Rightarrow> world \<Rightarrow> template \<Rightarrow> error + (template \<times> world)" where
  "default_fallback py w t =
     (case configure py (w_fs w) t ''default'' of
        Inl e \<Rightarrow> Inl e
      | Inr (c, t') \<Rightarrow> Inr (t'\<lparr>t_resolved := True\<rparr>, w))"

text \<open>The string that \<^verbatim>\<open>render\<close> returns, without the state.\<close>

definition render_text ::
  "error + (pystr \<times> template \<times> world) \<Rightarrow> error + pystr" where
  "render_text r = (case r of Inl e \<Rightarrow> Inl e | Inr (s, t, w) \<Rightarrow> Inr s)"

text \<open>
  No match of the pattern begins inside \<open>lit\<close> when \<open>s\<close> follows it: what the scan
  knows of the text it has passed over.
\<close>

definition no_match_inside :: "(nat \<Rightarrow> bool) \<Rightarrow> pystr \<Rightarrow> pystr \<Rightarrow> bool" where
  "no_match_inside alnum lit s =
     (\<forall>i < length lit. match_placeholder alnum (drop i lit @ s) = None)"

section \<open>Deletion\<close>

text \<open>
  The tree without the entry at a list of entry names: the entry is dropped from the
  listing of its parent, whatever it holds; names that lead nowhere change nothing.
\<close>

fun rm_at :: "node \<Rightarrow> string list \<Rightarrow> node" where
  "rm_at (Dir es) [c] = Dir (filter (\<lambda>(k, v). k \<noteq> c) es)"
| "rm_at (Dir es) (c # c' # cs) =
     Dir (map (\<lambda>(k, v). if k = c then (k, rm_at v (c' # cs)) else (k, v)) es)"
| "rm_at n cs = n"

text \<open>The tree with the directory at a list of entry names emptied.\<close>

fun empty_at :: "node \<Rightarrow> string list \<Rightarrow> node" where
  "empty_at (Dir es) [] = Dir []"
| "empty_at (Dir es) (a # as) =
     Dir (map (\<lambda>(k, v). if k = a then (k, empty_at v as) else (k, v)) es)"
| "empty_at (File x) as = File x"

text \<open>\<^verbatim>\<open>os.remove(path)\<close>: only a regular file can be removed.\<close>

definition os_remove :: "node \<Rightarrow> string \<Rightarrow> error + node" where
  "os_remove fs p =
     (if isfile fs p
      then (case realpath fs p of None \<Rightarrow> Inl OSError | Some cp \<Rightarrow> Inr (rm_at fs cp))
      else Inl OSError)"

text \<open>The last component of the path that is not empty is a name, not \<^verbatim>\<open>.\<close> or \<^verbatim>\<open>..\<close>.\<close>

definition ends_in_name :: "string \<Rightarrow> bool" where
  "ends_in_name p =
     (let cs = filter (\<lambda>c. c \<noteq> []) (split_on (CHR ''/'') p)
      in cs \<noteq> [] \<and> last cs \<noteq> ''.'' \<and> last cs \<noteq> ''..'')"

text \<open>
  \<^verbatim>\<open>shutil.rmtree(path)\<close>: the path must name a directory. What the directory holds is
  removed first and the directory itself last, by \<^verbatim>\<open>os.rmdir(path)\<close>, which fails when
  the path does not end in a name; the error is raised with the directory left empty.
  The result is the error raised, if any, and the tree as the call leaves it.
\<close>

definition rmtree :: "node \<Rightarrow> string \<Rightarrow> error option \<times> node" where
  "rmtree fs p =
     (if isdir fs p
      then (case realpath fs p of
              None \<Rightarrow> (Some OSError, fs)
            | Some cp \<Rightarrow>
                if ends_in_name p then (None, rm_at fs cp)
                else (Some OSError, empty_at fs cp))
      else (Some OSError, fs))"

text \<open>\<^verbatim>\<open>Note.delete\<close>.\<close>

definition Note_delete :: "node \<Rightarrow> note_obj \<Rightarrow> error + node" where
  "Note_delete fs nt = os_remove fs (note_path nt)"

text \<open>\<^verbatim>\<open>Notebook.empty\<close>.\<close>

definition Notebook_empty :: "node \<Rightarrow> notebook \<Rightarrow> error + bool" where
  "Notebook_empty fs nb = (case listdir fs (nb_path nb) of Inl e \<Rightarrow> Inl e | Inr ds \<Rightarrow> Inr (ds = []))"

text \<open>
  \<^verbatim>\<open>Template.delete\<close>: when the template storage of the notebook exists, the user is
  asked, and it is removed on a yes. The result is the error raised, if any, and the
  world as the call leaves it.
\<close>

definition Template_delete :: "world \<Rightarrow> template \<Rightarrow> error option \<times> world" where
  "Template_delete w t =
     (let ntd = join (t_dir t) (nb_name (t_notebook t)) in
      if check_directory (w_fs w) ntd
      then (case yesno ''yes'' (w_stdin w) of
              (Inl e, inp) \<Rightarrow> (Some e, w\<lparr>w_stdin := inp\<rparr>)
            | (Inr False, inp) \<Rightarrow> (None, w\<lparr>w_stdin := inp\<rparr>)
            | (Inr True, inp) \<Rightarrow>
                (case rmtree (w_fs w) ntd of
                   (e, fs') \<Rightarrow> (e, \<lparr>w_fs = fs', w_stdin = inp\<rparr>)))
      else (None, w))"

text \<open>
  \<^verbatim>\<open>Notebook.delete\<close>. The notebook was built without \<^verbatim>\<open>prompt_create\<close>, so its
  \<^verbatim>\<open>template\<close> property builds \<^verbatim>\<open>Template(self)\<close>.
\<close>

definition Notebook_delete :: "string option \<Rightarrow> world \<Rightarrow> notebook \<Rightarrow> error option \<times> world" where
  "Notebook_delete env_dir w nb =
     (case rmtree (w_fs w) (nb_path nb) of
        (Some e, fs') \<Rightarrow> (Some e, w\<lparr>w_fs := fs'\<rparr>)
      | (None, fs') \<Rightarrow> Template_delete (w\<lparr>w_fs := fs'\<rparr>) (Template env_dir nb False))"

text \<open>
  The class \<^verbatim>\<open>Git\<close>. The executable that \<^verbatim>\<open>shutil.which\<close> found is the parameter
  \<open>git_run\<close>: what starting it in the root with a subcommand and a path does, an error
  when the process cannot be started and else its exit status and what it writes to its
  standard output, together with the world it leaves. The command line is made of the
  two by \<^verbatim>\<open>os.path.relpath\<close> and \<^verbatim>\<open>shlex.split\<close>.
\<close>

record git =
  git_tld :: string
  git_run :: "string \<Rightarrow> string \<Rightarrow> world \<Rightarrow> (error + nat \<times> pystr) \<times> world"

text \<open>\<^verbatim>\<open>Git.is_tracked\<close>: something was written by \<^verbatim>\<open>git ls-files\<close>.\<close>

definition Git_is_tracked :: "git \<Rightarrow> string \<Rightarrow> world \<Rightarrow> (error + bool) \<times> world" where
  "Git_is_tracked g path w =
     (case git_run g ''ls-files'' path w of
        (Inl e, w') \<Rightarrow> (Inl e, w')
      | (Inr (status, paths), w') \<Rightarrow> (Inr (paths \<noteq> []), w'))"

text \<open>\<^verbatim>\<open>Git.rm\<close>: the exit status.\<close>

definition Git_rm :: "git \<Rightarrow> string \<Rightarrow> bool \<Rightarrow> world \<Rightarrow> (error + nat) \<times> world" where
  "Git_rm g filename recursive w =
     (case git_run g (if recursive then ''rm -r'' else ''rm'') filename w of
        (Inl e, w') \<Rightarrow> (Inl e, w')
      | (Inr (status, out), w') \<Rightarrow> (Inr status, w'))"

text \<open>\<^verbatim>\<open>Git.commit\<close>.\<close>

definition Git_commit :: "git \<Rightarrow> world \<Rightarrow> error option \<times> world" where
  "Git_commit g w =
     (case git_run g ''commit'' [] w of
        (Inl e, w') \<Rightarrow> (Some e, w')
      | (Inr r, w') \<Rightarrow> (None, w'))"

text \<open>\<^verbatim>\<open>git_prompt_delete\<close>: the target only words the question.\<close>

definition git_prompt_delete :: "pystr list \<Rightarrow> (error + bool) \<times> pystr list" where
  "git_prompt_delete inp = yesno ''yes'' inp"

text \<open>
  \<^verbatim>\<open>_delete_note(args, tld, git, notebook)\<close>; \<open>n\<close> is \<^verbatim>\<open>args.note\<close> and \<open>git\<close> is
  \<^verbatim>\<open>None\<close> or the \<^verbatim>\<open>Git\<close> object. The result is the error raised or the exit taken,
  if any, and the world as the call leaves it.
\<close>

definition delete_note ::
  "string option \<Rightarrow> git option \<Rightarrow> world \<Rightarrow> notebook \<Rightarrow> string \<Rightarrow> error option \<times> world" where
  "delete_note env_dir git w nb n =
     (case find (w_fs w) nb n of
        None \<Rightarrow> (Some UnableToFind, w)
      | Some nt \<Rightarrow>
          (case yesno ''yes'' (w_stdin w) of
             (Inl e, inp) \<Rightarrow> (Some e, w\<lparr>w_stdin := inp\<rparr>)
           | (Inr False, inp) \<Rightarrow> (None, w\<lparr>w_stdin := inp\<rparr>)
           | (Inr True, inp) \<Rightarrow>
               (case Note_delete (w_fs w) nt of
                  Inl e \<Rightarrow> (Some e, w\<lparr>w_stdin := inp\<rparr>)
                | Inr fs1 \<Rightarrow>
                    (case (case Notebook_empty fs1 (note_notebook nt) of
                             Inl e \<Rightarrow> (Some e, \<lparr>w_fs = fs1, w_stdin = inp\<rparr>)
                           | Inr True \<Rightarrow>
                               Notebook_delete env_dir \<lparr>w_fs = fs1, w_stdin = inp\<rparr> (note_notebook nt)
                           | Inr False \<Rightarrow> (None, \<lparr>w_fs = fs1, w_stdin = inp\<rparr>)) of
                       (Some e, w2) \<Rightarrow> (Some e, w2)
                     | (None, w2) \<Rightarrow>
                         (case git of
                            None \<Rightarrow> (None, w2)
                          | Some g \<Rightarrow>
                              (case Git_is_tracked g (note_path nt) w2 of
                                 (Inl e, w3) \<Rightarrow> (Some e, w3)
                               | (Inr False, w3) \<Rightarrow> (None, w3)
                               | (Inr True, w3) \<Rightarrow>
                                   (case git_prompt_delete (w_stdin w3) of
                                      (Inl e, inp') \<Rightarrow> (Some e, w3\<lparr>w_stdin := inp'\<rparr>)
                                    | (Inr False, inp') \<Rightarrow> (None, w3\<lparr>w_stdin := inp'\<rparr>)
                                    | (Inr True, inp') \<Rightarrow>
                                        (case Git_rm g (note_path nt) False (w3\<lparr>w_stdin := inp'\<rparr>) of
                                           (Inl e, w4) \<Rightarrow> (Some e, w4)
                                         | (Inr status, w4) \<Rightarrow> Git_commit g w4))))))))"

section \<open>Notions used to state the claims about lookup and deletion\<close>

text \<open>
  A name that is a single path component and names an entry: not empty, no slash,
  neither \<^verbatim>\<open>.\<close> nor \<^verbatim>\<open>..\<close>.
\<close>

definition plain_name :: "string \<Rightarrow> bool" where
  "plain_name c = (c \<noteq> [] \<and> CHR ''/'' \<notin> set c \<and> c \<noteq> ''.'' \<and> c \<noteq> ''..'')"

text \<open>
  A name that stays inside the directory it is joined to: a relative path whose \<^verbatim>\<open>..\<close>
  components never step above where it starts. \<open>k\<close> counts the components gone down
  so far.
\<close>

fun stays :: "string list \<Rightarrow> nat \<Rightarrow> bool" where
  "stays [] k = True"
| "stays (c # cs) k = (if c = ''..'' then 0 < k \<and> stays cs (k - 1) else stays cs (Suc k))"

definition stays_inside :: "string \<Rightarrow> bool" where
  "stays_inside n = (\<not> startswith n ''/'' \<and> stays (comps n) 0)"

text \<open>The tree once the note and then its notebook are removed, and nothing else.\<close>

definition notebook_removed :: "node \<Rightarrow> string \<Rightarrow> string \<Rightarrow> string \<Rightarrow> node" where
  "notebook_removed fs tld name n =
     (case realpath fs (join tld name) of
        None \<Rightarrow> fs
      | Some nbp \<Rightarrow> rm_at (rm_at fs (nbp @ [n])) nbp)"

text \<open>The template storage of a notebook: the path \<^verbatim>\<open>Template.delete\<close> looks at.\<close>

definition template_storage :: "string option \<Rightarrow> string \<Rightarrow> string \<Rightarrow> string" where
  "template_storage env_dir tld name =
     join (case env_dir of Some d \<Rightarrow> d | None \<Rightarrow> join tld ''templates'') name"

text \<open>
  Version control leaves the tree as it is: no run of git changes the file system as
  the tree shows it (what it changes lies inside \<^verbatim>\<open>.git\<close>).
\<close>

definition git_keeps_tree :: "git option \<Rightarrow> bool" where
  "git_keeps_tree git =
     (case git of
        None \<Rightarrow> True
      | Some g \<Rightarrow> (\<forall>sub p w. w_fs (snd (git_run g sub p w)) = w_fs w))"

section \<open>Example trees\<close>

text \<open>Two notebooks, \<^verbatim>\<open>work\<close> and \<^verbatim>\<open>personal\<close>, each holding \<^verbatim>\<open>standup.md\<close>.\<close>

definition standup_root :: node where
  "standup_root = Dir [(''notes'', Dir
     [(''work'', Dir [(''standup.md'', File (asc ''w''))]),
      (''personal'', Dir [(''standup.md'', File (asc ''p''))])])]"

text \<open>
  A root whose listing is not in alphabetical order and holds a regular file, a dot
  directory and the template storage beside two notebooks.
\<close>

definition mixed_root :: node where
  "mixed_root = Dir [(''notes'', Dir
     [(''zeta'', Dir [(''c.md'', File (asc ''3'')), (''a.md'', File (asc ''1'')),
                     (''b.md'', File (asc ''2''))]),
      (''readme.txt'', File (asc ''r'')),
      (''.git'', Dir []),
      (''templates'', Dir []),
      (''alpha'', Dir [(''b.md'', File (asc ''2'')), (''c.md'', File (asc ''3'')),
                      (''a.md'', File (asc ''1'')), (''only.md'', File (asc ''o''))])])]"

text \<open>The notebook \<^verbatim>\<open>zeta\<close> of \<open>mixed_root\<close> with its notes listed in another order.\<close>

definition zeta_reordered :: node where
  "zeta_reordered = Dir [(''notes'', Dir
     [(''zeta'', Dir [(''b.md'', File (asc ''2'')), (''a.md'', File (asc ''1'')),
                     (''c.md'', File (asc ''3''))])])]"

text \<open>The root of \<open>mixed_root\<close> with the notebook \<^verbatim>\<open>zeta\<close> as it is there and no other.\<close>

definition zeta_alone :: node where
  "zeta_alone = Dir [(''notes'', Dir
     [(''zeta'', Dir [(''c.md'', File (asc ''3'')), (''a.md'', File (asc ''1'')),
                     (''b.md'', File (asc ''2''))])])]"

text \<open>
  What \<^verbatim>\<open>getattr\<close> finds on the module object of a dynamic unit that binds five
  names: \<^verbatim>\<open>title\<close> and \<^verbatim>\<open>foo\<close> return strings, \<^verbatim>\<open>boom\<close> raises, \<^verbatim>\<open>count\<close>
  returns something that is not a string, \<^verbatim>\<open>version\<close> is not callable. Beside them
  it finds what every module object has, here with the attributes of CPython 3.11:
  \<^verbatim>\<open>__subclasshook__\<close> takes the two arguments and returns \<^verbatim>\<open>NotImplemented\<close>, the
  other methods raise on two arguments, and the rest is data that cannot be called.
\<close>

definition demo_runner :: runner where
  "demo_runner fn =
     (if fn = asc ''title''
      then Some (Callable (\<lambda>nb n. Returns (PyStr (asc (nb_name nb @ '': '' @ n)))))
      else if fn = asc ''foo'' then Some (Callable (\<lambda>nb n. Returns (PyStr (asc ''Z''))))
      else if fn = asc ''boom'' then Some (Callable (\<lambda>nb n. Raises))
      else if fn = asc ''count'' then Some (Callable (\<lambda>nb n. Returns PyOther))
      else if fn = asc ''version'' then Some NotCallable
      else if fn = asc ''__subclasshook__'' then Some (Callable (\<lambda>nb n. Returns PyOther))
      else if fn \<in> set (map asc
        [''__class__'', ''__delattr__'', ''__dir__'', ''__eq__'', ''__format__'', ''__ge__'',
         ''__getattribute__'', ''__getstate__'', ''__gt__'', ''__hash__'', ''__init__'',
         ''__init_subclass__'', ''__le__'', ''__lt__'', ''__ne__'', ''__new__'', ''__reduce__'',
         ''__reduce_ex__'', ''__repr__'', ''__setattr__'', ''__sizeof__'', ''__str__''])
      then Some (Callable (\<lambda>nb n. Raises))
      else if fn \<in> set (map asc
        [''__annotations__'', ''__builtins__'', ''__cached__'', ''__dict__'', ''__doc__'',
         ''__file__'', ''__loader__'', ''__name__'', ''__package__'', ''__spec__''])
      then Some NotCallable
      else None)"

text \<open>
  The Unicode character database on the code points 128 to 255: the letters and the
  digits of Latin-1. The examples hold no code point above; there it says no.
\<close>

definition latin1_alnum :: "nat \<Rightarrow> bool" where
  "latin1_alnum c =
     (c = 170 \<or> c = 178 \<or> c = 179 \<or> c = 181 \<or> c = 185 \<or> c = 186
      \<or> (188 \<le> c \<and> c \<le> 190) \<or> (192 \<le> c \<and> c \<le> 214) \<or> (216 \<le> c \<and> c \<le> 246)
      \<or> (248 \<le> c \<and> c \<le> 255))"


text \<open>Executing a dynamic unit: only the text \<^verbatim>\<open>demo\<close> loads, as \<open>demo_runner\<close>.\<close>

definition demo_py :: "pystr \<Rightarrow> runner option" where
  "demo_py code = (if code = asc ''demo'' then Some demo_runner else None)"

text \<open>An editor that leaves the file system as it is.\<close>

definition no_editor :: "string \<Rightarrow> string \<Rightarrow> node \<Rightarrow> error + node" where
  "no_editor template runnable fs = Inr fs"

text \<open>
  A root with a \<^verbatim>\<open>default\<close> template pair, half a pair for \<^verbatim>\<open>personal\<close> and nothing
  for \<^verbatim>\<open>work\<close>.
\<close>

definition default_only_root :: node where
  "default_only_root = Dir [(''notes'', Dir
     [(''work'', Dir [(''standup.md'', File (asc ''w''))]),
      (''templates'', Dir
         [(''default'', Dir [(''default.txt'', File (asc ''# {{ title }}'')),
                            (''default.py'', File (asc ''demo''))]),
          (''personal'', Dir [(''personal.txt'', File (asc ''dear diary''))])])])]"

text \<open>Standard input given as ASCII lines.\<close>

definition notes_world :: "node \<Rightarrow> string list \<Rightarrow> world" where
  "notes_world fs inp = \<lparr>w_fs = fs, w_stdin = map asc inp\<rparr>"

definition work_note :: note_obj where
  "work_note = Note (mk_notebook ''/notes'' ''work'') ''standup.md''"

text \<open>
  A root where \<^verbatim>\<open>work\<close> holds one note and has a template pair in the template
  storage.
\<close>

definition template_root :: node where
  "template_root = Dir [(''notes'', Dir
     [(''work'', Dir [(''standup.md'', File (asc ''w''))]),
      (''personal'', Dir [(''diary.md'', File (asc ''p''))]),
      (''templates'', Dir
         [(''work'', Dir [(''work.txt'', File (asc ''# {{ title }}'')),
                         (''work.py'', File (asc ''demo''))])])])]"

text \<open>
  A root where the template pair of \<^verbatim>\<open>work\<close> has the text \<^verbatim>\<open>{{fooXY\<close>, two opening
  braces that no closing braces follow.
\<close>

definition literal_root :: node where
  "literal_root = Dir [(''notes'', Dir
     [(''work'', Dir [(''standup.md'', File (asc ''w''))]),
      (''templates'', Dir
         [(''work'', Dir [(''work.txt'', File (asc ''{{fooXY'')),
                         (''work.py'', File (asc ''demo''))])])])]"

text \<open>
  A git that reports every path as tracked, succeeds at everything and leaves the world
  as it is.
\<close>

definition demo_git :: git where
  "demo_git = \<lparr>git_tld = ''/notes'',
               git_run = (\<lambda>sub p w. (Inr (0, if sub = ''ls-files'' then asc ''tracked'' else []), w))\<rparr>"
section \<open>Paths: facts about joining and resolution\<close>

lemma split_on_nonempty: "split_on c s \<noteq> []"
  by (induction s) (auto split: list.splits)

lemma split_on_plain: "c \<notin> set s \<Longrightarrow> split_on c s = [s]"
  by (induction s) auto

lemma split_on_append:
  "split_on c (a @ c # b) = split_on c a @ split_on c b"
  by (induction a) (auto split: list.splits simp: split_on_nonempty)

lemma last_split_on_append: "last (split_on c (a @ c # b)) = last (split_on c b)"
  by (simp add: split_on_append split_on_nonempty)

lemma comps_Nil: "comps [] = []"
  by (simp add: comps_def)

lemma comps_plain: "plain_name c \<Longrightarrow> comps c = [c]"
  by (simp add: comps_def plain_name_def split_on_plain)

lemma comps_slash: "comps (a @ CHR ''/'' # b) = comps a @ comps b"
  by (simp add: comps_def split_on_append)

lemma plain_not_absolute: "plain_name c \<Longrightarrow> \<not> startswith c ''/''"
  by (cases c) (auto simp: plain_name_def)

lemma join_relative_cases:
  assumes "\<not> startswith c ''/''"
  shows "join a c = c \<and> a = [] \<or> (\<exists>a'. join a c = a' @ CHR ''/'' # c \<and> comps a' = comps a)"
proof (cases "a = []")
  case True
  with assms show ?thesis by (simp add: join_def)
next
  case False
  show ?thesis
  proof (cases "last a = CHR ''/''")
    case True
    with False obtain a' where a: "a = a' @ ''/''"
      by (metis append_butlast_last_id)
    have "comps a = comps a' @ comps []" unfolding a by (simp only: comps_slash)
    then have "comps a' = comps a" by (simp add: comps_Nil)
    moreover have "join a c = a' @ CHR ''/'' # c"
      using assms a by (simp add: join_def endswith_char_def)
    ultimately show ?thesis by blast
  next
    case l: False
    with False assms have "join a c = a @ CHR ''/'' # c"
      by (simp add: join_def endswith_char_def)
    then show ?thesis by blast
  qed
qed

lemma join_plain_cases:
  assumes "plain_name c"
  shows "join a c = c \<and> a = [] \<or> (\<exists>a'. join a c = a' @ CHR ''/'' # c \<and> comps a' = comps a)"
  using assms by (intro join_relative_cases plain_not_absolute)

lemma comps_join_relative: "\<not> startswith c ''/'' \<Longrightarrow> comps (join a c) = comps a @ comps c"
  using join_relative_cases [of c a] by (auto simp: comps_slash comps_Nil)

lemma join_nonempty: "a \<noteq> [] \<or> c \<noteq> [] \<Longrightarrow> join a c \<noteq> []"
  by (cases c) (auto simp: join_def)

lemma dirmark_join_relative:
  "\<not> startswith c ''/'' \<Longrightarrow> a \<noteq> [] \<Longrightarrow> dirmark (join a c) = (c = [] \<or> dirmark c)"
  using join_relative_cases [of c a]
  by (cases "c = []") (auto simp: dirmark_def last_split_on_append)

lemma comps_join_plain: "plain_name c \<Longrightarrow> comps (join a c) = comps a @ [c]"
  using join_plain_cases [of c a] by (auto simp: comps_slash comps_plain comps_Nil)

lemma join_plain_nonempty: "plain_name c \<Longrightarrow> join a c \<noteq> []"
  using join_plain_cases [of c a] by (auto simp: plain_name_def)

lemma dirmark_join_plain: "plain_name c \<Longrightarrow> \<not> dirmark (join a c)"
  using join_plain_cases [of c a]
  by (auto simp: dirmark_def last_split_on_append split_on_plain plain_name_def)

lemma ends_in_name_join_plain: "plain_name c \<Longrightarrow> ends_in_name (join a c)"
  using join_plain_cases [of c a]
  by (auto simp: ends_in_name_def Let_def split_on_append split_on_plain plain_name_def)

lemma walk_append:
  "walk fs (p @ q) = (case walk fs p of None \<Rightarrow> None | Some n \<Rightarrow> walk n q)"
proof (induction fs p rule: walk.induct)
  case (1 n)
  then show ?case by simp
next
  case (2 x c cs)
  then show ?case by simp
next
  case (3 es c cs)
  then show ?case by (simp split: option.splits)
qed

lemma walk_File: "walk (File x) p = (if p = [] then Some (File x) else None)"
  by (cases p) auto

lemma walk_snoc:
  "walk fs (p @ [c]) =
     (case walk fs p of Some (Dir es) \<Rightarrow> map_of es c | _ \<Rightarrow> None)"
  by (simp add: walk_append split: option.splits node.splits)

lemma walk_prefix_Dir:
  "walk fs (p @ [c]) = Some n \<Longrightarrow> \<exists>es. walk fs p = Some (Dir es)"
  by (auto simp: walk_snoc split: option.splits node.splits)

lemma walk_butlast: "walk fs p \<noteq> None \<Longrightarrow> walk fs (butlast p) \<noteq> None"
proof (cases p rule: rev_cases)
  case Nil
  then show "walk fs p \<noteq> None \<Longrightarrow> ?thesis" by simp
next
  case (snoc q c)
  assume "walk fs p \<noteq> None"
  with snoc obtain n where "walk fs (q @ [c]) = Some n" by auto
  from walk_prefix_Dir [OF this] snoc show ?thesis by auto
qed

lemma canon_append:
  "canon fs acc (xs @ ys) = (case canon fs acc xs of None \<Rightarrow> None | Some a \<Rightarrow> canon fs a ys)"
  by (induction xs arbitrary: acc) (auto split: option.splits node.splits)

text \<open>What resolution returns names a node of the tree.\<close>

lemma canon_walk:
  "canon fs acc cs = Some r \<Longrightarrow> walk fs acc \<noteq> None \<Longrightarrow> walk fs r \<noteq> None"
proof (induction cs arbitrary: acc)
  case Nil
  then show ?case by simp
next
  case (Cons c cs)
  from Cons.prems(1) obtain es where d: "walk fs acc = Some (Dir es)"
    by (auto split: option.splits node.splits)
  show ?case
  proof (cases "c = ''..''")
    case True
    with Cons.prems(1) d have "canon fs (butlast acc) cs = Some r" by simp
    moreover have "walk fs (butlast acc) \<noteq> None" using Cons.prems(2) by (rule walk_butlast)
    ultimately show ?thesis by (rule Cons.IH)
  next
    case False
    with Cons.prems(1) d obtain m where m: "map_of es c = Some m"
      and r: "canon fs (acc @ [c]) cs = Some r"
      by (auto split: option.splits)
    from d m have "walk fs (acc @ [c]) \<noteq> None" by (simp add: walk_snoc)
    with r show ?thesis by (rule Cons.IH)
  qed
qed

lemma realpath_walk: "realpath fs p = Some r \<Longrightarrow> walk fs r \<noteq> None"
  unfolding realpath_def by (erule canon_walk) simp

text \<open>A path without \<^verbatim>\<open>..\<close> resolves to its own components.\<close>

lemma canon_plain:
  "''..'' \<notin> set cs \<Longrightarrow>
     canon fs acc cs = (if cs = [] \<or> walk fs (acc @ cs) \<noteq> None then Some (acc @ cs) else None)"
proof (induction cs arbitrary: acc)
  case Nil
  then show ?case by simp
next
  case (Cons c cs)
  have ne: "c \<noteq> ''..''" and rest: "''..'' \<notin> set cs" using Cons.prems by auto
  note ih = Cons.IH [OF rest, of "acc @ [c]"]
  show ?case
  proof (cases "walk fs acc")
    case None
    then show ?thesis by (simp add: walk_append)
  next
    case (Some n)
    show ?thesis
    proof (cases n)
      case (File x)
      with Some show ?thesis by (simp add: walk_append)
    next
      case (Dir es)
      show ?thesis
      proof (cases "map_of es c")
        case None
        with Some Dir ne show ?thesis by (simp add: walk_append)
      next
        case m: (Some m)
        have w: "walk fs (acc @ [c]) = Some m" using Some Dir m by (simp add: walk_snoc)
        have "canon fs acc (c # cs) = canon fs (acc @ [c]) cs"
          using Some Dir m ne by simp
        also have "\<dots> = (if walk fs (acc @ c # cs) \<noteq> None then Some (acc @ c # cs) else None)"
          using ih w by (cases cs) auto
        finally show ?thesis by simp
      qed
    qed
  qed
qed

lemma realpath_plain:
  "''..'' \<notin> set (comps p) \<Longrightarrow>
     realpath fs p = (if walk fs (comps p) \<noteq> None then Some (comps p) else None)"
  using canon_plain [of "comps p" fs "[]"] by (auto simp: realpath_def)

lemma realpath_Nil: "realpath fs [] = Some []"
  by (simp add: realpath_def comps_Nil)

text \<open>
  A plain name joined to a path names the entry of that name in the directory the path
  names.
\<close>

lemma realpath_join_plain:
  assumes "plain_name c"
  shows "realpath fs (join a c) =
     (case realpath fs a of
        None \<Rightarrow> None
      | Some ca \<Rightarrow>
          (case walk fs ca of
             Some (Dir es) \<Rightarrow> (case map_of es c of None \<Rightarrow> None | Some m \<Rightarrow> Some (ca @ [c]))
           | _ \<Rightarrow> None))"
proof -
  have ne: "c \<noteq> ''..''" using assms by (simp add: plain_name_def)
  have "realpath fs (join a c) = canon fs [] (comps a @ [c])"
    using assms by (simp add: realpath_def comps_join_plain)
  also have "\<dots> = (case canon fs [] (comps a) of None \<Rightarrow> None | Some ca \<Rightarrow> canon fs ca [c])"
    by (rule canon_append)
  finally show ?thesis using ne
    by (simp add: realpath_def split: option.splits node.splits)
qed

lemma lookup_join_plain:
  assumes "plain_name c"
  shows "lookup fs (join a c) =
     (case realpath fs a of
        None \<Rightarrow> None
      | Some ca \<Rightarrow> (case walk fs ca of Some (Dir es) \<Rightarrow> map_of es c | _ \<Rightarrow> None))"
  using assms
  by (auto simp: lookup_def join_plain_nonempty dirmark_join_plain realpath_join_plain walk_snoc
      split: option.splits node.splits)

lemma lookup_child:
  assumes "a \<noteq> []" and "plain_name c"
  shows "lookup fs (join a c) = (case lookup fs a of Some (Dir es) \<Rightarrow> map_of es c | _ \<Rightarrow> None)"
  unfolding lookup_join_plain [OF assms(2)]
proof (cases "realpath fs a")
  case None
  with assms(1) show "(case realpath fs a of
        None \<Rightarrow> None
      | Some ca \<Rightarrow> (case walk fs ca of Some (Dir es) \<Rightarrow> map_of es c | _ \<Rightarrow> None))
      = (case lookup fs a of Some (Dir es) \<Rightarrow> map_of es c | _ \<Rightarrow> None)"
    by (simp add: lookup_def)
next
  case (Some ca)
  show "(case realpath fs a of
        None \<Rightarrow> None
      | Some ca \<Rightarrow> (case walk fs ca of Some (Dir es) \<Rightarrow> map_of es c | _ \<Rightarrow> None))
      = (case lookup fs a of Some (Dir es) \<Rightarrow> map_of es c | _ \<Rightarrow> None)"
  proof (cases "walk fs ca")
    case None
    with Some assms(1) show ?thesis by (simp add: lookup_def)
  next
    case n: (Some n)
    with Some assms(1) show ?thesis
      by (cases n) (simp_all add: lookup_def)
  qed
qed


text \<open>
  Below a node of the tree, a name that stays inside resolves as it does in that node
  taken as a root.
\<close>

lemma canon_subtree:
  "walk fs cp = Some d \<Longrightarrow> stays cs (length acc) \<Longrightarrow>
     canon fs (cp @ acc) cs = map_option ((@) cp) (canon d acc cs)"
proof (induction cs arbitrary: acc)
  case Nil
  then show ?case by simp
next
  case (Cons c cs)
  have w: "walk fs (cp @ acc) = walk d acc" using Cons.prems(1) by (simp add: walk_append)
  show ?case
  proof (cases "c = ''..''")
    case True
    with Cons.prems(2) have ne: "acc \<noteq> []" and st: "stays cs (length (butlast acc))" by auto
    from ne have b: "butlast (cp @ acc) = cp @ butlast acc" by (simp add: butlast_append)
    from Cons.IH [OF Cons.prems(1) st] True w b show ?thesis
      by (simp split: option.splits node.splits)
  next
    case False
    with Cons.prems(2) have st: "stays cs (length (acc @ [c]))" by simp
    from Cons.IH [OF Cons.prems(1) st] False w show ?thesis
      by (simp split: option.splits node.splits)
  qed
qed

lemma isfile_inside:
  assumes "lookup fs p = Some d" and "stays_inside n"
  shows "isfile fs (join p n) = isfile d n"
proof -
  from assms(1) obtain cp where ne: "p \<noteq> []" and rp: "realpath fs p = Some cp"
    and w: "walk fs cp = Some d"
    by (auto simp: lookup_def split: option.splits node.splits if_splits)
  have rel: "\<not> startswith n ''/''" and st: "stays (comps n) (length ([] :: string list))"
    using assms(2) by (simp_all add: stays_inside_def)
  have "realpath fs (join p n) = canon fs [] (comps p @ comps n)"
    using rel by (simp add: realpath_def comps_join_relative)
  also have "\<dots> = canon fs (cp @ []) (comps n)"
    using rp by (simp add: canon_append realpath_def)
  also have "\<dots> = map_option ((@) cp) (canon d [] (comps n))"
    using w st by (rule canon_subtree)
  finally have r: "realpath fs (join p n) = map_option ((@) cp) (realpath d n)"
    by (simp add: realpath_def)
  have wd: "walk fs (cp @ q) = walk d q" for q using w by (simp add: walk_append)
  have j: "join p n \<noteq> []" using ne by (intro join_nonempty) simp
  have dm: "dirmark (join p n) = (n = [] \<or> dirmark n)"
    using rel ne by (rule dirmark_join_relative)
  show ?thesis
  proof (cases "n = []")
    case True
    then have "realpath d n = Some []" by (simp add: realpath_Nil)
    with True r w dm j show ?thesis
      by (cases d) (simp_all add: isfile_def lookup_def)
  next
    case False
    show ?thesis
    proof (cases "realpath d n")
      case None
      with r j False show ?thesis by (simp add: isfile_def lookup_def)
    next
      case (Some q)
      with r j False dm wd [of q] show ?thesis
        by (simp add: isfile_def lookup_def split: option.splits node.splits)
    qed
  qed
qed

section \<open>Lookup: facts about the loops\<close>

lemma isdir_exists: "isdir fs p \<Longrightarrow> exists fs p"
  by (auto simp: isdir_def exists_def split: option.splits)

lemma discover_loop_eq:
  "discover_loop fs tld filt ds =
     Inr (map (mk_notebook tld)
        (filter (\<lambda>d. isdir fs (join tld d) \<and> \<not> startswith d ''.'' \<and> d \<noteq> ''templates''
                     \<and> (case filt of None \<Rightarrow> True | Some f \<Rightarrow> f d)) ds))"
  by (induction ds) (auto simp: Notebook_def check_directory_def isdir_exists mk_notebook_def)

lemma search_loop_eq:
  "search_loop fs n nbs =
     map (\<lambda>nb. Note nb n) (filter (\<lambda>nb. isfile fs (join (nb_path nb) n)) nbs)"
  by (induction nbs) (auto simp: find_def)

lemma takeWhile_all: "c \<notin> set s \<Longrightarrow> takeWhile (\<lambda>x. x \<noteq> c) s = s"
  by (induction s) auto

text \<open>
  The last two items of the split of a name with a slash: the segment before the last
  slash and the segment after it.
\<close>

lemma rsplit_two_last:
  assumes "c \<in> set s"
  shows "last_two (rsplit c 2 s)
           = [rev (takeWhile (\<lambda>x. x \<noteq> c) (tl (dropWhile (\<lambda>x. x \<noteq> c) (rev s)))),
              rev (takeWhile (\<lambda>x. x \<noteq> c) (rev s))]"
proof -
  let ?r = "rev s"
  let ?rest = "tl (dropWhile (\<lambda>x. x \<noteq> c) ?r)"
  have two: "(2::nat) = Suc (Suc 0)" by simp
  have sm: "split_max c 2 ?r = takeWhile (\<lambda>x. x \<noteq> c) ?r # split_max c (Suc 0) ?rest"
    using assms unfolding two by simp
  show ?thesis
  proof (cases "c \<in> set ?rest")
    case False
    then have "split_max c (Suc 0) ?rest = [takeWhile (\<lambda>x. x \<noteq> c) ?rest]"
      by (simp add: takeWhile_all)
    with sm show ?thesis by (simp add: rsplit_def last_two_def)
  next
    case True
    then have "split_max c (Suc 0) ?rest
                 = [takeWhile (\<lambda>x. x \<noteq> c) ?rest, tl (dropWhile (\<lambda>x. x \<noteq> c) ?rest)]"
      by simp
    with sm show ?thesis by (simp add: rsplit_def last_two_def)
  qed
qed

lemma find_note_search:
  assumes "\<not> truthy hint" "CHR ''/'' \<notin> set n"
  shows "find_note fs tld n hint =
     (case search fs tld n of
        Inl e \<Rightarrow> Inl e
      | Inr matches \<Rightarrow>
          if matches = [] then Inl NotFound
          else if length matches > 1 then Inl Ambiguous
          else Inr (Some (matches ! 0)))"
  using assms by (simp add: find_note_def)

lemma search_no_ValueError: "search fs tld n \<noteq> Inl ValueError"
  by (auto simp: search_def discover_def listdir_def discover_loop_eq
      split: sum.splits option.splits node.splits)

lemma find_note_no_ValueError:
  assumes "CHR ''/'' \<in> set n"
  shows "find_note fs tld n hint \<noteq> Inl ValueError"
proof (cases "truthy hint")
  case True
  then show ?thesis
    by (auto simp: find_note_def Notebook_def Let_def split: sum.splits if_splits)
next
  case False
  let ?n' = "rev (takeWhile (\<lambda>x. x \<noteq> CHR ''/'') (rev n))"
  from False assms have "find_note fs tld n hint =
     (case search fs tld ?n' of
        Inl e \<Rightarrow> Inl e
      | Inr matches \<Rightarrow>
          if matches = [] then Inl NotFound
          else if length matches > 1 then Inl Ambiguous
          else Inr (Some (matches ! 0)))"
    by (simp add: find_note_def rsplit_two_last)
  with search_no_ValueError [of fs tld ?n'] show ?thesis
    by (auto split: sum.splits if_splits)
qed

section \<open>Lookup: the claims\<close>

text \<open>
  C1. The claim: with notebooks \<^verbatim>\<open>work\<close> and \<^verbatim>\<open>personal\<close> each holding
  \<^verbatim>\<open>standup.md\<close>, the name \<^verbatim>\<open>work/standup.md\<close> without a hint resolves to the note
  under \<^verbatim>\<open>work\<close>, and the bare name fails as ambiguous. The code splits the name,
  binds the notebook and then searches every notebook for the note part alone: on this
  tree the slash-qualified name ends in the same ambiguity failure as the bare name.
  Only an explicit hint reaches the note under \<^verbatim>\<open>work\<close>.
\<close>

theorem slash_qualified_name_is_ambiguous:
  "find_note standup_root ''/notes'' ''work/standup.md'' None = Inl Ambiguous
   \<and> find_note standup_root ''/notes'' ''standup.md'' None = Inl Ambiguous
   \<and> find_note standup_root ''/notes'' ''standup.md'' (Some ''work'')
       = Inr (Some (Note (mk_notebook ''/notes'' ''work'') ''standup.md''))"
  by code_simp

text \<open>
  C2. For a name without a slash and no hint, over the notebooks that discovery returns:
  when none holds a file of that name the lookup ends with \<open>NotFound\<close>; when two or more
  do it ends with \<open>Ambiguous\<close>; when exactly one does it returns the note of that
  notebook.
\<close>

theorem find_note_bare_name:
  assumes "CHR ''/'' \<notin> set n" and "\<not> truthy hint" and "discover fs tld None = Inr nbs"
  shows "(filter (\<lambda>nb. isfile fs (join (nb_path nb) n)) nbs = [] \<longrightarrow>
            find_note fs tld n hint = Inl NotFound)
       \<and> (2 \<le> length (filter (\<lambda>nb. isfile fs (join (nb_path nb) n)) nbs) \<longrightarrow>
            find_note fs tld n hint = Inl Ambiguous)
       \<and> (\<forall>nb. filter (\<lambda>nb. isfile fs (join (nb_path nb) n)) nbs = [nb] \<longrightarrow>
            find_note fs tld n hint = Inr (Some (Note nb n)))"
  using assms by (auto simp: find_note_search search_def search_loop_eq)

theorem find_note_bare_name_witness:
  "find_note mixed_root ''/notes'' ''none.md'' None = Inl NotFound
   \<and> find_note mixed_root ''/notes'' ''a.md'' None = Inl Ambiguous
   \<and> find_note mixed_root ''/notes'' ''only.md'' None
       = Inr (Some (Note (mk_notebook ''/notes'' ''alpha'') ''only.md''))"
proof -
  let ?nbs = "[mk_notebook ''/notes'' ''zeta'', mk_notebook ''/notes'' ''alpha'']"
  have d: "discover mixed_root ''/notes'' None = Inr ?nbs" by code_simp
  have t: "\<not> truthy None" by (simp add: truthy_def)
  have s1: "CHR ''/'' \<notin> set ''none.md''" and s2: "CHR ''/'' \<notin> set ''a.md''"
    and s3: "CHR ''/'' \<notin> set ''only.md''" by simp_all
  have f1: "filter (\<lambda>nb. isfile mixed_root (join (nb_path nb) ''none.md'')) ?nbs = []"
    by code_simp
  have f2: "2 \<le> length (filter (\<lambda>nb. isfile mixed_root (join (nb_path nb) ''a.md'')) ?nbs)"
    by code_simp
  have f3: "filter (\<lambda>nb. isfile mixed_root (join (nb_path nb) ''only.md'')) ?nbs
      = [mk_notebook ''/notes'' ''alpha'']"
    by code_simp
  from find_note_bare_name [OF s1 t d] f1
  have r1: "find_note mixed_root ''/notes'' ''none.md'' None = Inl NotFound" by blast
  from find_note_bare_name [OF s2 t d] f2
  have r2: "find_note mixed_root ''/notes'' ''a.md'' None = Inl Ambiguous" by blast
  from find_note_bare_name [OF s3 t d] f3
  have r3: "find_note mixed_root ''/notes'' ''only.md'' None
       = Inr (Some (Note (mk_notebook ''/notes'' ''alpha'') ''only.md''))"
    by blast
  from r1 r2 r3 show ?thesis by blast
qed

text \<open>
  C6. The claim: some name with a slash splits into fewer than two segments and the
  lookup then fails as malformed. No such name exists, with or without a hint: the
  branch is entered only when the name holds a slash, and then the last two items of
  \<^verbatim>\<open>rsplit('/', 2)\<close> are exactly two.
\<close>

theorem no_malformed_name_counterexample:
  "\<not> (\<exists>fs tld n hint. CHR ''/'' \<in> set n
        \<and> (length (last_two (rsplit (CHR ''/'') 2 n)) < 2
           \<or> find_note fs tld n hint = Inl ValueError))"
proof
  assume "\<exists>fs tld n hint. CHR ''/'' \<in> set n
        \<and> (length (last_two (rsplit (CHR ''/'') 2 n)) < 2
           \<or> find_note fs tld n hint = Inl ValueError)"
  then obtain fs tld n hint where s: "CHR ''/'' \<in> set n"
    and d: "length (last_two (rsplit (CHR ''/'') 2 n)) < 2
            \<or> find_note fs tld n hint = Inl ValueError"
    by blast
  from rsplit_two_last [OF s] have "length (last_two (rsplit (CHR ''/'') 2 n)) = 2" by simp
  with d find_note_no_ValueError [OF s, of fs tld hint] show False by simp
qed

text \<open>
  C6, as amended. For every name with a slash, the last two items of the split are
  exactly two: the segment before the last slash, read as the notebook, and the segment
  after it, read as the note. The unpacking succeeds, and the lookup, with or without
  a hint, never ends with the unpacking error.
\<close>

theorem slash_name_never_malformed:
  assumes "CHR ''/'' \<in> set n"
  shows "\<exists>nbk n'. last_two (rsplit (CHR ''/'') 2 n) = [nbk, n']
           \<and> nbk = rev (takeWhile (\<lambda>x. x \<noteq> CHR ''/'')
                          (tl (dropWhile (\<lambda>x. x \<noteq> CHR ''/'') (rev n))))
           \<and> n' = rev (takeWhile (\<lambda>x. x \<noteq> CHR ''/'') (rev n))
           \<and> unpack_pair (last_two (rsplit (CHR ''/'') 2 n)) = Inr (nbk, n')
           \<and> find_note fs tld n hint \<noteq> Inl ValueError"
  using rsplit_two_last [OF assms] find_note_no_ValueError [OF assms, of fs tld hint]
  by simp

theorem slash_name_never_malformed_witness:
  "CHR ''/'' \<in> set ''/home/me/notes/work/standup.md''
   \<and> unpack_pair (last_two (rsplit (CHR ''/'') 2 ''/home/me/notes/work/standup.md''))
       = Inr (''work'', ''standup.md'')
   \<and> find_note standup_root ''/notes'' ''/home/me/notes/work/standup.md'' None \<noteq> Inl ValueError
   \<and> find_note standup_root ''/notes'' ''/home/me/notes/work/standup.md'' (Some ''work'')
       \<noteq> Inl ValueError"
proof -
  let ?n = "''/home/me/notes/work/standup.md''"
  have s: "CHR ''/'' \<in> set ?n" by simp
  have a: "rev (takeWhile (\<lambda>x. x \<noteq> CHR ''/'') (tl (dropWhile (\<lambda>x. x \<noteq> CHR ''/'') (rev ?n))))
             = ''work''"
    and b: "rev (takeWhile (\<lambda>x. x \<noteq> CHR ''/'') (rev ?n)) = ''standup.md''"
    by code_simp+
  from slash_name_never_malformed [OF s, of standup_root "''/notes''" None]
  have u: "unpack_pair (last_two (rsplit (CHR ''/'') 2 ?n)) = Inr (''work'', ''standup.md'')"
    and v1: "find_note standup_root ''/notes'' ?n None \<noteq> Inl ValueError"
    unfolding a b by auto
  from slash_name_never_malformed [OF s, of standup_root "''/notes''" "Some ''work''"]
  have v2: "find_note standup_root ''/notes'' ?n (Some ''work'') \<noteq> Inl ValueError" by blast
  from s u v1 v2 show ?thesis by blast
qed

text \<open>
  C7. The claim: discovery returns the notebooks sorted by name. The loop keeps the
  order of the directory listing; on \<open>mixed_root\<close> it returns \<^verbatim>\<open>zeta\<close> before
  \<^verbatim>\<open>alpha\<close>.
\<close>

theorem discover_unsorted_counterexample:
  "discover mixed_root ''/notes'' None
     = Inr [mk_notebook ''/notes'' ''zeta'', mk_notebook ''/notes'' ''alpha'']
   \<and> \<not> sorted (map nb_name [mk_notebook ''/notes'' ''zeta'', mk_notebook ''/notes'' ''alpha''])"
  by code_simp

text \<open>
  C7, as amended. For every root that can be listed, discovery returns, in the order of
  the directory listing, exactly the entries that are directories, do not start with a
  dot, are not named \<^verbatim>\<open>templates\<close> and pass the name filter when one is given.
\<close>

theorem discover_listing_order:
  assumes "listdir fs tld = Inr ds"
  shows "discover fs tld filt =
     Inr (map (mk_notebook tld)
        (filter (\<lambda>d. isdir fs (join tld d) \<and> \<not> startswith d ''.'' \<and> d \<noteq> ''templates''
                     \<and> (case filt of None \<Rightarrow> True | Some f \<Rightarrow> f d)) ds))"
  using assms by (simp add: discover_def discover_loop_eq)

theorem discover_listing_order_witness:
  "listdir mixed_root ''/notes'' = Inr [''zeta'', ''readme.txt'', ''.git'', ''templates'', ''alpha'']
   \<and> discover mixed_root ''/notes'' (Some (\<lambda>d. d = ''alpha'')) = Inr [mk_notebook ''/notes'' ''alpha'']
   \<and> discover mixed_root ''/notes'' None
       = Inr [mk_notebook ''/notes'' ''zeta'', mk_notebook ''/notes'' ''alpha'']"
proof -
  have l: "listdir mixed_root ''/notes''
             = Inr [''zeta'', ''readme.txt'', ''.git'', ''templates'', ''alpha'']"
    by code_simp
  have f1: "filter (\<lambda>d. isdir mixed_root (join ''/notes'' d) \<and> \<not> startswith d ''.''
                     \<and> d \<noteq> ''templates''
                     \<and> (case Some (\<lambda>d. d = ''alpha'') of None \<Rightarrow> True | Some f \<Rightarrow> f d))
             [''zeta'', ''readme.txt'', ''.git'', ''templates'', ''alpha''] = [''alpha'']"
    by code_simp
  have f2: "filter (\<lambda>d. isdir mixed_root (join ''/notes'' d) \<and> \<not> startswith d ''.''
                     \<and> d \<noteq> ''templates''
                     \<and> (case None :: (string \<Rightarrow> bool) option of None \<Rightarrow> True | Some f \<Rightarrow> f d))
             [''zeta'', ''readme.txt'', ''.git'', ''templates'', ''alpha''] = [''zeta'', ''alpha'']"
    by code_simp
  from discover_listing_order [OF l, of "Some (\<lambda>d. d = ''alpha'')"] f1
  have r1: "discover mixed_root ''/notes'' (Some (\<lambda>d. d = ''alpha''))
              = Inr [mk_notebook ''/notes'' ''alpha'']"
    by simp
  from discover_listing_order [OF l, of None] f2
  have r2: "discover mixed_root ''/notes'' None
       = Inr [mk_notebook ''/notes'' ''zeta'', mk_notebook ''/notes'' ''alpha'']"
    by simp
  from l r1 r2 show ?thesis by blast
qed

text \<open>
  C8. For every notebook whose directory can be listed, \<^verbatim>\<open>sift\<close> returns one note per
  entry, their names in ascending order (lists of characters compared
  lexicographically by character code), all owned by the notebook; and two listings of
  the same entries in different orders give the same result.
\<close>

theorem sift_sorted:
  assumes "listdir fs (nb_path nb) = Inr ds"
    and "listdir fs' (nb_path nb) = Inr ds'"
    and "mset ds' = mset ds"
  shows "\<exists>ns. sift fs nb = Inr ns
           \<and> sorted (map note_name ns)
           \<and> mset (map note_name ns) = mset ds
           \<and> map note_notebook ns = replicate (length ds) nb
           \<and> sift fs' nb = Inr ns"
proof -
  have names: "map note_name (map (Note nb) xs) = xs" for xs
    by (induction xs) (simp_all add: Note_def)
  have nbs: "map note_notebook (map (Note nb) xs) = replicate (length xs) nb" for xs
    by (induction xs) (simp_all add: Note_def)
  have same: "sort ds' = sort ds"
    using assms(3) by (simp add: properties_for_sort)
  let ?ns = "map (Note nb) (sort ds)"
  have a: "sift fs nb = Inr ?ns" using assms(1) by (simp add: sift_def)
  have b: "sift fs' nb = Inr ?ns" using assms(2) same by (simp add: sift_def)
  have c: "sorted (map note_name ?ns)" unfolding names by simp
  have d: "mset (map note_name ?ns) = mset ds" unfolding names by simp
  have e: "map note_notebook ?ns = replicate (length ds) nb" unfolding nbs by simp
  from a b c d e show ?thesis by blast
qed

theorem sift_sorted_witness:
  "sift mixed_root (mk_notebook ''/notes'' ''zeta'')
     = Inr (map (Note (mk_notebook ''/notes'' ''zeta'')) [''a.md'', ''b.md'', ''c.md''])
   \<and> sift zeta_reordered (mk_notebook ''/notes'' ''zeta'')
     = sift mixed_root (mk_notebook ''/notes'' ''zeta'')"
proof -
  let ?nb = "mk_notebook ''/notes'' ''zeta''"
  have l1: "listdir mixed_root (nb_path ?nb) = Inr [''c.md'', ''a.md'', ''b.md'']"
    by code_simp
  have l2: "listdir zeta_reordered (nb_path ?nb) = Inr [''b.md'', ''a.md'', ''c.md'']"
    by code_simp
  have m: "mset [''b.md'', ''a.md'', ''c.md''] = mset [''c.md'', ''a.md'', ''b.md'']"
    by simp
  have v: "sift mixed_root ?nb = Inr (map (Note ?nb) [''a.md'', ''b.md'', ''c.md''])"
    by code_simp
  from sift_sorted [OF l1 l2 m] have "sift zeta_reordered ?nb = sift mixed_root ?nb"
    by auto
  with v show ?thesis by blast
qed

text \<open>
  C10. The claim: with a hint, only the hinted notebook is consulted; the result is the
  note when the file exists in the hinted notebook and absent otherwise, never a
  termination, and never \<open>Ambiguous\<close>. Four calls with a hint where it fails. When the
  hinted notebook does not exist, the constructor's existence check ends the process.
  An empty hint counts as none: the search over all notebooks runs and ends with
  \<open>Ambiguous\<close>. And the note's name is joined to the notebook's path as a path: an
  absolute name replaces it and a name with \<^verbatim>\<open>..\<close> leaves it, so that with the hint
  \<^verbatim>\<open>zeta\<close> the call returns a note whose file lies in \<^verbatim>\<open>alpha\<close>, and returns absent
  on the tree that has the same \<^verbatim>\<open>zeta\<close> and no \<^verbatim>\<open>alpha\<close>.
\<close>

theorem hinted_lookup_counterexample:
  "find_note standup_root ''/notes'' ''standup.md'' (Some ''ghost'') = Inl NotebookMissing
   \<and> find_note standup_root ''/notes'' ''standup.md'' (Some []) = Inl Ambiguous
   \<and> lookup mixed_root (join ''/notes'' ''zeta'') = lookup zeta_alone (join ''/notes'' ''zeta'')
   \<and> \<not> isfile mixed_root ''/notes/zeta/only.md''
   \<and> find_note mixed_root ''/notes'' ''/notes/alpha/only.md'' (Some ''zeta'')
       = Inr (Some (Note (mk_notebook ''/notes'' ''zeta'') ''/notes/alpha/only.md''))
   \<and> note_path (Note (mk_notebook ''/notes'' ''zeta'') ''/notes/alpha/only.md'')
       = ''/notes/alpha/only.md''
   \<and> find_note zeta_alone ''/notes'' ''/notes/alpha/only.md'' (Some ''zeta'') = Inr None
   \<and> find_note mixed_root ''/notes'' ''../alpha/only.md'' (Some ''zeta'')
       = Inr (Some (Note (mk_notebook ''/notes'' ''zeta'') ''../alpha/only.md''))
   \<and> note_path (Note (mk_notebook ''/notes'' ''zeta'') ''../alpha/only.md'')
       = ''/notes/zeta/../alpha/only.md''
   \<and> find_note zeta_alone ''/notes'' ''../alpha/only.md'' (Some ''zeta'') = Inr None"
  by code_simp

text \<open>
  C10, as amended. For every call with a hint that is not empty and a note name that
  stays inside the directory it is joined to (a relative path whose \<^verbatim>\<open>..\<close> components
  never step above where it starts): when the hinted path does not exist the call ends
  the process ("Notebook ... does not exist"); when it exists the result is the note
  if the name is that of a regular file in the hinted notebook's own tree, and absent
  otherwise. Only the hinted notebook is consulted: the result is the same on every
  tree that has the same hinted notebook, whatever else the trees hold. The call never
  ends with \<open>NotFound\<close> or \<open>Ambiguous\<close>.
\<close>

theorem find_note_hinted:
  assumes "h \<noteq> []" and "stays_inside n"
  shows "find_note fs tld n (Some h) =
           (case lookup fs (join tld h) of
              None \<Rightarrow> Inl NotebookMissing
            | Some d \<Rightarrow> if isfile d n then Inr (Some (Note (mk_notebook tld h) n)) else Inr None)
       \<and> (\<forall>fs'. lookup fs' (join tld h) = lookup fs (join tld h)
             \<longrightarrow> find_note fs' tld n (Some h) = find_note fs tld n (Some h))
       \<and> find_note fs tld n (Some h) \<noteq> Inl Ambiguous
       \<and> find_note fs tld n (Some h) \<noteq> Inl NotFound"
proof -
  have shape: "find_note g tld n (Some h) =
           (case lookup g (join tld h) of
              None \<Rightarrow> Inl NotebookMissing
            | Some d \<Rightarrow> if isfile d n then Inr (Some (Note (mk_notebook tld h) n)) else Inr None)"
    for g
  proof (cases "lookup g (join tld h)")
    case None
    with assms(1) show ?thesis
      by (simp add: find_note_def truthy_def Notebook_def check_directory_def exists_def)
  next
    case (Some d)
    from isfile_inside [OF Some assms(2)] Some assms(1) show ?thesis
      by (simp add: find_note_def truthy_def Notebook_def check_directory_def exists_def
          find_def mk_notebook_def)
  qed
  have same: "find_note fs' tld n (Some h) = find_note fs tld n (Some h)"
    if "lookup fs' (join tld h) = lookup fs (join tld h)" for fs'
    using that by (simp add: shape)
  have na: "find_note fs tld n (Some h) \<noteq> Inl Ambiguous"
    and nf: "find_note fs tld n (Some h) \<noteq> Inl NotFound"
    by (simp_all add: shape split: option.splits)
  from shape [of fs] same na nf show ?thesis by blast
qed

theorem find_note_hinted_witness:
  "''zeta'' \<noteq> [] \<and> stays_inside ''a.md'' \<and> stays_inside ''sub/../only.md''
   \<and> find_note mixed_root ''/notes'' ''a.md'' (Some ''zeta'')
       = Inr (Some (Note (mk_notebook ''/notes'' ''zeta'') ''a.md''))
   \<and> find_note zeta_alone ''/notes'' ''a.md'' (Some ''zeta'')
       = find_note mixed_root ''/notes'' ''a.md'' (Some ''zeta'')
   \<and> find_note mixed_root ''/notes'' ''only.md'' (Some ''zeta'') = Inr None
   \<and> find_note mixed_root ''/notes'' ''sub/../only.md'' (Some ''alpha'') = Inr None
   \<and> find_note mixed_root ''/notes'' ''a.md'' (Some ''ghost'') = Inl NotebookMissing"
proof -
  let ?zeta = "Dir [(''c.md'', File (asc ''3'')), (''a.md'', File (asc ''1'')),
                    (''b.md'', File (asc ''2''))]"
  let ?alpha = "Dir [(''b.md'', File (asc ''2'')), (''c.md'', File (asc ''3'')),
                     (''a.md'', File (asc ''1'')), (''only.md'', File (asc ''o''))]"
  have h: "''zeta'' \<noteq> []" and a: "''alpha'' \<noteq> []" and g: "''ghost'' \<noteq> []" by simp_all
  have s1: "stays_inside ''a.md''" and s2: "stays_inside ''only.md''"
    and s3: "stays_inside ''sub/../only.md''" by code_simp+
  have z: "lookup mixed_root (join ''/notes'' ''zeta'') = Some ?zeta"
    and z': "lookup zeta_alone (join ''/notes'' ''zeta'') = lookup mixed_root (join ''/notes'' ''zeta'')"
    and al: "lookup mixed_root (join ''/notes'' ''alpha'') = Some ?alpha"
    and gh: "lookup mixed_root (join ''/notes'' ''ghost'') = None"
    by code_simp+
  have f1: "isfile ?zeta ''a.md''" and f2: "\<not> isfile ?zeta ''only.md''"
    and f3: "\<not> isfile ?alpha ''sub/../only.md''" by code_simp+
  from find_note_hinted [OF h s1, of mixed_root "''/notes''"] z f1
  have r1: "find_note mixed_root ''/notes'' ''a.md'' (Some ''zeta'')
       = Inr (Some (Note (mk_notebook ''/notes'' ''zeta'') ''a.md''))" by simp
  from find_note_hinted [OF h s1, of mixed_root "''/notes''"] z'
  have r2: "find_note zeta_alone ''/notes'' ''a.md'' (Some ''zeta'')
       = find_note mixed_root ''/notes'' ''a.md'' (Some ''zeta'')" by blast
  from find_note_hinted [OF h s2, of mixed_root "''/notes''"] z f2
  have r3: "find_note mixed_root ''/notes'' ''only.md'' (Some ''zeta'') = Inr None" by simp
  from find_note_hinted [OF a s3, of mixed_root "''/notes''"] al f3
  have r4: "find_note mixed_root ''/notes'' ''sub/../only.md'' (Some ''alpha'') = Inr None"
    by simp
  from find_note_hinted [OF g s1, of mixed_root "''/notes''"] gh
  have r5: "find_note mixed_root ''/notes'' ''a.md'' (Some ''ghost'') = Inl NotebookMissing"
    by simp
  from h s1 s3 r1 r2 r3 r4 r5 show ?thesis by blast
qed

section \<open>Templates: facts about the tokenizer and the loop\<close>

lemma asc_open: "asc ''{{'' = [123, 123]"
  by (simp add: asc_def)

lemma asc_close: "asc ''}}'' = [125, 125]"
  by (simp add: asc_def)

lemma match_placeholder_Nil [simp]: "match_placeholder alnum [] = None"
  by (simp add: match_placeholder_def asc_open)

lemma match_placeholder_starts:
  "match_placeholder alnum s = Some (tok, rest) \<Longrightarrow> startswith tok (asc ''{{'')"
  by (auto simp: match_placeholder_def Let_def asc_open split: if_splits)

lemma startswith_append: "startswith s p \<longleftrightarrow> (\<exists>r. s = p @ r)"
  by (induction s p rule: startswith.induct) auto

lemma match_placeholder_text:
  "match_placeholder alnum s = Some (tok, rest) \<Longrightarrow> s = tok @ rest"
proof -
  assume m: "match_placeholder alnum s = Some (tok, rest)"
  let ?P = "\<lambda>c. isspace c \<or> isword alnum c"
  let ?r = "drop 2 s"
  from m have st: "startswith s [123, 123]" and st': "startswith (dropWhile ?P ?r) [125, 125]"
    and tok: "tok = [123, 123] @ takeWhile ?P ?r @ [125, 125]"
    and rest: "rest = drop 2 (dropWhile ?P ?r)"
    by (auto simp: match_placeholder_def Let_def asc_open asc_close split: if_splits)
  from st have s: "s = [123, 123] @ ?r" by (auto simp: startswith_append)
  from st' have d: "dropWhile ?P ?r = [125, 125] @ rest" unfolding rest
    by (auto simp: startswith_append)
  have "?r = takeWhile ?P ?r @ dropWhile ?P ?r" by simp
  with d have "?r = takeWhile ?P ?r @ [125, 125] @ rest" by simp
  with s tok show ?thesis by (metis append.assoc)
qed

lemma re_split_from_Nil: "re_split_from alnum lit [] = [lit]"
  by (subst re_split_from.simps) simp

lemma re_split_from_match:
  "match_placeholder alnum s = Some (tok, rest) \<Longrightarrow>
     re_split_from alnum lit s = lit # tok # re_split_from alnum [] rest"
  by (subst re_split_from.simps) simp

lemma re_split_from_skip:
  "match_placeholder alnum (c # cs) = None \<Longrightarrow>
     re_split_from alnum lit (c # cs) = re_split_from alnum (lit @ [c]) cs"
  by (subst re_split_from.simps) simp

lemma re_split_from_concat: "concat (re_split_from alnum lit s) = lit @ s"
proof (induction alnum lit s rule: re_split_from.induct)
  case (1 alnum lit s)
  show ?case
  proof (cases "match_placeholder alnum s")
    case None
    show ?thesis
    proof (cases s)
      case Nil
      then show ?thesis by (simp add: re_split_from_Nil)
    next
      case (Cons c cs)
      with None 1(1) [OF None Cons] show ?thesis by (simp add: re_split_from_skip)
    qed
  next
    case (Some a)
    obtain tok rest where a: "a = (tok, rest)" by (cases a)
    from 1(2) [OF Some [unfolded a] refl] match_placeholder_text [of alnum s tok rest] Some a
    show ?thesis by (simp add: re_split_from_match)
  qed
qed

lemma re_split_from_plain:
  "\<not> has_placeholder alnum s \<Longrightarrow> re_split_from alnum lit s = [lit @ s]"
proof (induction s arbitrary: lit)
  case Nil
  then show ?case by (simp add: re_split_from_Nil)
next
  case (Cons c cs)
  from Cons.prems have "match_placeholder alnum (c # cs) = None \<and> \<not> has_placeholder alnum cs"
    by (cases "match_placeholder alnum (c # cs)") auto
  then have m: "match_placeholder alnum (c # cs) = None" and n: "\<not> has_placeholder alnum cs"
    by blast+
  from Cons.IH [OF n, of "lit @ [c]"] show ?case
    by (simp add: re_split_from_skip [OF m])
qed

lemma re_split_from_placeholders:
  "p \<in> set (placeholder_tokens (re_split_from alnum lit s)) \<Longrightarrow> startswith p (asc ''{{'')"
proof (induction alnum lit s rule: re_split_from.induct)
  case (1 alnum lit s)
  show ?case
  proof (cases "match_placeholder alnum s")
    case None
    show ?thesis
    proof (cases s)
      case Nil
      with 1(3) show ?thesis by (simp add: re_split_from_Nil)
    next
      case (Cons c cs)
      with None 1(1) [OF None Cons] 1(3) show ?thesis by (simp add: re_split_from_skip)
    qed
  next
    case (Some a)
    obtain tok rest where a: "a = (tok, rest)" by (cases a)
    from 1(3) Some a
    have "p = tok \<or> p \<in> set (placeholder_tokens (re_split_from alnum [] rest))"
      by (auto simp: re_split_from_match)
    then show ?thesis
    proof
      assume "p = tok"
      with Some a show ?thesis by (auto dest: match_placeholder_starts)
    next
      assume "p \<in> set (placeholder_tokens (re_split_from alnum [] rest))"
      with 1(2) [OF Some [unfolded a] refl] show ?thesis by simp
    qed
  qed
qed

lemma brace_not_ident: "\<not> (isspace 125 \<or> isword alnum 125)"
  by (simp add: isspace_def isword_def)

lemma match_placeholder_shape:
  assumes "match_placeholder alnum s = Some (tok, rest)"
  shows "\<exists>ident. (\<forall>c \<in> set ident. isspace c \<or> isword alnum c)
           \<and> tok = [123, 123] @ ident @ [125, 125] \<and> s = tok @ rest"
proof -
  let ?P = "\<lambda>c. isspace c \<or> isword alnum c"
  let ?r = "drop 2 s"
  from assms have tok: "tok = [123, 123] @ takeWhile ?P ?r @ [125, 125]"
    by (auto simp: match_placeholder_def Let_def asc_open asc_close split: if_splits)
  have "\<forall>c \<in> set (takeWhile ?P ?r). ?P c" by (auto dest: set_takeWhileD)
  with tok match_placeholder_text [OF assms] show ?thesis by blast
qed

lemma match_placeholder_extend:
  assumes "match_placeholder alnum s = Some (tok, rest)"
  shows "match_placeholder alnum (s @ x) = Some (tok, rest @ x)"
proof -
  let ?P = "\<lambda>c. isspace c \<or> isword alnum c"
  from match_placeholder_shape [OF assms] obtain ident
    where id: "\<forall>c \<in> set ident. ?P c" and tok: "tok = [123, 123] @ ident @ [125, 125]"
      and s: "s = tok @ rest" by blast
  have d: "drop 2 (s @ x) = ident @ 125 # 125 # rest @ x"
    unfolding s tok by simp
  have t: "takeWhile ?P (ident @ 125 # 125 # rest @ x) = ident"
    using id brace_not_ident [of alnum] by simp
  have w: "dropWhile ?P (ident @ 125 # 125 # rest @ x) = 125 # 125 # rest @ x"
    using id brace_not_ident [of alnum] by simp
  have st: "startswith (s @ x) [123, 123]" unfolding s tok by simp
  show ?thesis
    unfolding match_placeholder_def Let_def asc_open asc_close d t w using st tok by simp
qed

lemma placeholder_is_match:
  assumes "match_placeholder alnum s = Some (tok, rest)"
  shows "match_placeholder alnum tok = Some (tok, [])"
proof -
  let ?P = "\<lambda>c. isspace c \<or> isword alnum c"
  from match_placeholder_shape [OF assms] obtain ident
    where id: "\<forall>c \<in> set ident. ?P c" and tok: "tok = [123, 123] @ ident @ [125, 125]" by blast
  have d: "drop 2 tok = ident @ [125, 125]" unfolding tok by simp
  have t: "takeWhile ?P (ident @ [125, 125]) = ident"
    using id brace_not_ident [of alnum] by simp
  have w: "dropWhile ?P (ident @ [125, 125]) = [125, 125]"
    using id brace_not_ident [of alnum] by simp
  have st: "startswith tok [123, 123]" unfolding tok by simp
  show ?thesis
    unfolding match_placeholder_def Let_def asc_open asc_close d t w using st tok by simp
qed

lemma has_placeholder_iff:
  "has_placeholder alnum s \<longleftrightarrow> (\<exists>i < length s. match_placeholder alnum (drop i s) \<noteq> None)"
proof (induction s)
  case Nil
  then show ?case by simp
next
  case (Cons c cs)
  have "(\<exists>i < length (c # cs). match_placeholder alnum (drop i (c # cs)) \<noteq> None)
        \<longleftrightarrow> match_placeholder alnum (c # cs) \<noteq> None
            \<or> (\<exists>i < length cs. match_placeholder alnum (drop i cs) \<noteq> None)"
    by (auto simp: less_Suc_eq_0_disj)
  with Cons show ?case by simp
qed

lemma no_match_inside_plain:
  assumes "no_match_inside alnum lit s"
  shows "\<not> has_placeholder alnum lit"
proof
  assume "has_placeholder alnum lit"
  then obtain i where i: "i < length lit" and m: "match_placeholder alnum (drop i lit) \<noteq> None"
    by (auto simp: has_placeholder_iff)
  then obtain tok rest where "match_placeholder alnum (drop i lit) = Some (tok, rest)" by auto
  from match_placeholder_extend [OF this, of s] assms i show False
    by (simp add: no_match_inside_def)
qed

lemma no_match_inside_step:
  assumes "no_match_inside alnum lit (c # cs)" and "match_placeholder alnum (c # cs) = None"
  shows "no_match_inside alnum (lit @ [c]) cs"
  unfolding no_match_inside_def
proof (intro allI impI)
  fix i assume "i < length (lit @ [c])"
  then have "i < length lit \<or> i = length lit" by auto
  then show "match_placeholder alnum (drop i (lit @ [c]) @ cs) = None"
  proof
    assume "i < length lit"
    with assms(1) show ?thesis by (simp add: no_match_inside_def)
  next
    assume "i = length lit"
    with assms(2) show ?thesis by simp
  qed
qed

lemma re_split_from_tokens:
  assumes "no_match_inside alnum lit s"
  shows "(\<forall>l \<in> set (literal_spans (re_split_from alnum lit s)). \<not> has_placeholder alnum l)
       \<and> (\<forall>p \<in> set (placeholder_tokens (re_split_from alnum lit s)).
            match_placeholder alnum p = Some (p, []))"
  using assms
proof (induction alnum lit s rule: re_split_from.induct)
  case (1 alnum lit s)
  have plain: "\<not> has_placeholder alnum lit" using "1.prems" by (rule no_match_inside_plain)
  show ?case
  proof (cases "match_placeholder alnum s")
    case None
    show ?thesis
    proof (cases s)
      case Nil
      have "re_split_from alnum lit s = [lit]" unfolding Nil by (rule re_split_from_Nil)
      with plain show ?thesis by simp
    next
      case (Cons c cs)
      from "1.prems" None Cons have "no_match_inside alnum (lit @ [c]) cs"
        by (intro no_match_inside_step) simp_all
      note ih = "1.IH"(1) [OF None Cons this]
      have "re_split_from alnum lit s = re_split_from alnum (lit @ [c]) cs"
        using None unfolding Cons by (rule re_split_from_skip)
      with ih show ?thesis by simp
    qed
  next
    case (Some a)
    obtain tok rest where a: "a = (tok, rest)" by (cases a)
    have m: "match_placeholder alnum s = Some (tok, rest)" using Some a by simp
    have e: "no_match_inside alnum [] rest" by (simp add: no_match_inside_def)
    note ih = "1.IH"(2) [OF Some [unfolded a] refl e]
    have tok: "match_placeholder alnum tok = Some (tok, [])"
      using m by (rule placeholder_is_match)
    have eq: "re_split_from alnum lit s = lit # tok # re_split_from alnum [] rest"
      using m by (rule re_split_from_match)
    show ?thesis unfolding eq using ih plain tok by simp
  qed
qed

text \<open>
  What the split returns: no literal span holds a match of the pattern, and every
  placeholder token is one.
\<close>

lemma re_split_tokens:
  "(\<forall>l \<in> set (literal_spans (re_split alnum text)). \<not> has_placeholder alnum l)
   \<and> (\<forall>p \<in> set (placeholder_tokens (re_split alnum text)).
        match_placeholder alnum p = Some (p, []))"
  unfolding re_split_def by (rule re_split_from_tokens) (simp add: no_match_inside_def)

lemma render_token_fails:
  "call_fails r nb name token \<Longrightarrow> render_token r nb name token = PyStr token"
  by (auto simp: render_token_def call_fails_def Let_def
      split: option.splits attr.splits call_result.splits)

lemma render_token_literal:
  "\<not> startswith token (asc ''{{'') \<Longrightarrow> render_token r nb name token = PyStr token"
  by (simp add: render_token_def)

lemma render_token_returns:
  "startswith token (asc ''{{'') \<Longrightarrow> call_returns r nb name token v \<Longrightarrow>
     render_token r nb name token = v"
  by (auto simp: render_token_def call_returns_def Let_def
      split: option.splits attr.splits call_result.splits)



lemma join_interleave:
  assumes "\<forall>l \<in> set (literal_spans toks). startswith l (asc ''{{'') \<longrightarrow> call_fails r nb name l"
    and "\<forall>p \<in> set (placeholder_tokens toks).
           startswith p (asc ''{{'') \<and> call_returns r nb name p (PyStr (val p))"
  shows "join_str (map (render_token r nb name) toks) = Inr (interleave val toks)"
  using assms
proof (induction toks rule: literal_spans.induct)
  case 1
  then show ?case by simp
next
  case (2 l)
  then have "render_token r nb name l = PyStr l"
    by (cases "startswith l (asc ''{{'')") (simp_all add: render_token_fails render_token_literal)
  then show ?case by simp
next
  case (3 l p r')
  from "3.prems" have l: "render_token r nb name l = PyStr l"
    by (cases "startswith l (asc ''{{'')") (simp_all add: render_token_fails render_token_literal)
  from "3.prems" have p: "render_token r nb name p = PyStr (val p)"
    by (simp add: render_token_returns)
  from "3.prems" have "join_str (map (render_token r nb name) r') = Inr (interleave val r')"
    by (intro "3.IH") simp_all
  with l p show ?case by simp
qed

lemma render_resolved:
  "t_resolved t \<Longrightarrow> render alnum py ed w t nt =
     (case join_str (render_out alnum t (note_name nt)) of
        Inl e \<Rightarrow> Inl e
      | Inr s \<Rightarrow> Inr (s, t, w))"
  by (simp add: render_def)


lemma tokenize_text:
  "t_template t = Some text \<Longrightarrow> tokenize alnum t = (if text = [] then [] else re_split alnum text)"
  by (simp add: tokenize_def)

text \<open>
  Where every literal span that starts with two opening braces fails as a call, a text
  without placeholder tokens renders to itself, and a text whose placeholder tokens
  all return strings renders to the literal spans interleaved with those strings.
\<close>

lemma render_interleaves:
  assumes "t_resolved t" and "t_template t = Some text"
    and "\<forall>l \<in> set (literal_spans (re_split alnum text)).
           startswith l (asc ''{{'') \<longrightarrow> call_fails (t_runner t) (t_notebook t) (note_name nt) l"
  shows "(\<not> has_placeholder alnum text \<longrightarrow> render alnum py ed w t nt = Inr (text, t, w))
       \<and> ((\<forall>p \<in> set (placeholder_tokens (re_split alnum text)).
              call_returns (t_runner t) (t_notebook t) (note_name nt) p (PyStr (val p)))
            \<longrightarrow> render alnum py ed w t nt = Inr (interleave val (re_split alnum text), t, w))"
proof (intro conjI impI)
  {
    assume np: "\<not> has_placeholder alnum text"
    then have rs: "re_split alnum text = [text]" by (simp add: re_split_def re_split_from_plain)
    with assms(3) have "render_token (t_runner t) (t_notebook t) (note_name nt) text = PyStr text"
      by (cases "startswith text (asc ''{{'')")
         (simp_all add: render_token_fails render_token_literal)
    then show "render alnum py ed w t nt = Inr (text, t, w)"
      using assms(1,2) rs
      by (simp add: render_resolved render_out_def tokenize_text)
  }
  {
    assume ok: "\<forall>p \<in> set (placeholder_tokens (re_split alnum text)).
              call_returns (t_runner t) (t_notebook t) (note_name nt) p (PyStr (val p))"
    have st: "\<forall>p \<in> set (placeholder_tokens (re_split alnum text)). startswith p (asc ''{{'')"
      by (auto simp: re_split_def dest: re_split_from_placeholders)
    from ok st assms(3)
    have j: "join_str (map (render_token (t_runner t) (t_notebook t) (note_name nt))
                 (re_split alnum text))
          = Inr (interleave val (re_split alnum text))"
      by (intro join_interleave) auto
    show "render alnum py ed w t nt = Inr (interleave val (re_split alnum text), t, w)"
    proof (cases "text = []")
      case True
      then have "re_split alnum text = [[]]"
        by (simp add: re_split_def re_split_from_Nil)
      with True assms(1,2) show ?thesis
        by (simp add: render_resolved render_out_def tokenize_text)
    next
      case False
      with j assms(1,2) show ?thesis
        by (simp add: render_resolved render_out_def tokenize_text)
    qed
  }
qed

lemma configure_absent:
  "\<not> pair_present fs (t_dir t) name \<Longrightarrow> configure py fs t name = Inr (False, t)"
  by (auto simp: configure_def pair_present_def Let_def)

lemma configure_present:
  assumes "pair_present fs (t_dir t) name"
    and "read_file fs (join (join (t_dir t) name) (name @ ''.txt'')) = Inr text"
    and "read_file fs (join (join (t_dir t) name) (name @ ''.py'')) = Inr code"
    and "py code = Some m"
  shows "configure py fs t name = Inr (True, t\<lparr>t_template := Some text, t_runner := Some m\<rparr>)"
  using assms by (simp add: configure_def pair_present_def Let_def)

lemma create_never_true: "create ed w t = (Inr r, w') \<Longrightarrow> r \<noteq> Some True"
  by (auto simp: create_def Let_def split: prod.splits sum.splits bool.splits if_splits)

lemma resolve_falls_back:
  assumes "\<not> pair_present (w_fs w) (t_dir t) (nb_name (t_notebook t))"
    and "(if t_prompt_create t then create ed w t else (Inr None, w)) = (Inr r, w')"
  shows "resolve py ed w t = default_fallback py w' t"
proof (cases "t_prompt_create t")
  case False
  with assms show ?thesis
    by (simp add: resolve_def configure_absent default_fallback_def)
next
  case True
  with assms(2) have c: "create ed w t = (Inr r, w')" by simp
  then have "r \<noteq> Some True" by (rule create_never_true)
  with True c assms(1) show ?thesis
    by (simp add: resolve_def configure_absent default_fallback_def)
qed

section \<open>Templates: the claims\<close>

text \<open>
  C3. The claim: a template without placeholder tokens renders to itself, and when every
  placeholder resolves to a callable that returns normally the output is the literal
  spans interleaved with the values. The split tells placeholder tokens from literal
  spans by position, and the loop tells them again by \<^verbatim>\<open>token.startswith("{{")\<close>, which
  also holds of a literal span. On \<open>literal_root\<close> the template text of \<^verbatim>\<open>work\<close> is
  \<^verbatim>\<open>{{fooXY\<close>. It holds no match of the pattern, whatever the character database, and
  its split is the text itself, one literal span; the loop cuts two characters off
  either end of it, calls \<^verbatim>\<open>foo\<close>, and the fresh template of \<^verbatim>\<open>work\<close> renders to the
  value \<^verbatim>\<open>Z\<close> instead of to its text.
\<close>

theorem literal_span_rendered_as_placeholder:
  "read_file literal_root ''/notes/templates/work/work.txt'' = Inr (asc ''{{fooXY'')
   \<and> \<not> has_placeholder alnum (asc ''{{fooXY'')
   \<and> re_split alnum (asc ''{{fooXY'') = [asc ''{{fooXY'']
   \<and> placeholder_tokens (re_split alnum (asc ''{{fooXY'')) = []
   \<and> strip (slice_2_m2 (asc ''{{fooXY'')) = asc ''foo''
   \<and> render_text (render alnum demo_py no_editor (notes_world literal_root [])
        (Template None (mk_notebook ''/notes'' ''work'') False) work_note) = Inr (asc ''Z'')"
  by code_simp



text \<open>
  C5. For a fresh template of a notebook whose own pair is not fully present, and that
  interactive creation, when it is offered and completes, does not supply: resolution
  is the resolution by the pair of \<^verbatim>\<open>default\<close>; when that pair is present and loads,
  its text and its dynamic unit become the template's; when it is absent, the template
  stays empty and rendering any note gives the empty string.
\<close>

theorem template_fallback:
  assumes "t = Template env_dir nb pc"
    and "\<not> pair_present (w_fs w) (t_dir t) (nb_name nb)"
    and "(if pc then create ed w t else (Inr None, w)) = (Inr r, w')"
    and "\<not> pair_present (w_fs w') (t_dir t) (nb_name nb)"
  shows "resolve py ed w t = default_fallback py w' t
       \<and> (\<forall>body code m.
             pair_present (w_fs w') (t_dir t) ''default''
             \<and> read_file (w_fs w') (join (join (t_dir t) ''default'') ''default.txt'') = Inr body
             \<and> read_file (w_fs w') (join (join (t_dir t) ''default'') ''default.py'') = Inr code
             \<and> py code = Some m
           \<longrightarrow> resolve py ed w t
                 = Inr (t\<lparr>t_template := Some body, t_runner := Some m, t_resolved := True\<rparr>, w'))
       \<and> (\<not> pair_present (w_fs w') (t_dir t) ''default''
           \<longrightarrow> resolve py ed w t = Inr (t\<lparr>t_resolved := True\<rparr>, w')
               \<and> render alnum py ed w t nt = Inr ([], t\<lparr>t_resolved := True\<rparr>, w'))"
proof -
  have nb: "t_notebook t = nb" and pc: "t_prompt_create t = pc" and un: "\<not> t_resolved t"
    and tn: "t_template t = None"
    using assms(1) by (simp_all add: Template_def)
  have fb: "resolve py ed w t = default_fallback py w' t"
    using assms(2,3) by (intro resolve_falls_back [where r = r]) (simp_all add: nb pc)
  have present: "resolve py ed w t
                 = Inr (t\<lparr>t_template := Some body, t_runner := Some m, t_resolved := True\<rparr>, w')"
    if "pair_present (w_fs w') (t_dir t) ''default''"
      and "read_file (w_fs w') (join (join (t_dir t) ''default'') ''default.txt'') = Inr body"
      and "read_file (w_fs w') (join (join (t_dir t) ''default'') ''default.py'') = Inr code"
      and "py code = Some m" for body code m
    using that fb configure_present [of "w_fs w'" t "''default''" body code py m]
    by (simp add: default_fallback_def)
  have absent: "resolve py ed w t = Inr (t\<lparr>t_resolved := True\<rparr>, w')"
    if "\<not> pair_present (w_fs w') (t_dir t) ''default''"
    using that fb by (simp add: default_fallback_def configure_absent)
  have empty: "render alnum py ed w t nt = Inr ([], t\<lparr>t_resolved := True\<rparr>, w')"
    if "\<not> pair_present (w_fs w') (t_dir t) ''default''"
    using absent [OF that] un tn by (simp add: render_def render_out_def tokenize_def)
  from fb present absent empty show ?thesis by blast
qed

theorem template_fallback_witness:
  "render_text (render latin1_alnum demo_py no_editor (notes_world default_only_root [])
        (Template None (mk_notebook ''/notes'' ''work'') False) work_note)
     = Inr (asc ''# work: standup.md'')
   \<and> render latin1_alnum demo_py no_editor (notes_world standup_root [''n''])
        (Template None (mk_notebook ''/notes'' ''work'') True) work_note
      = Inr ([], (Template None (mk_notebook ''/notes'' ''work'') True)\<lparr>t_resolved := True\<rparr>,
             notes_world standup_root [])"
proof -
  let ?nb = "mk_notebook ''/notes'' ''work''"
  let ?t1 = "Template None ?nb False"
  let ?t2 = "Template None ?nb True"
  let ?w1 = "notes_world default_only_root []"
  let ?w2 = "notes_world standup_root [''n'']"
  let ?w2' = "notes_world standup_root []"
  have d1: "t_dir ?t1 = ''/notes/templates''" and d2: "t_dir ?t2 = ''/notes/templates''"
    by code_simp+
  have a1: "\<not> pair_present (w_fs ?w1) (t_dir ?t1) (nb_name ?nb)" by code_simp
  have c1: "(if False then create no_editor ?w1 ?t1 else (Inr None, ?w1)) = (Inr None, ?w1)"
    by simp
  have p1: "pair_present (w_fs ?w1) (t_dir ?t1) ''default''"
    and rt: "read_file (w_fs ?w1) (join (join (t_dir ?t1) ''default'') ''default.txt'')
               = Inr (asc ''# {{ title }}'')"
    and rp: "read_file (w_fs ?w1) (join (join (t_dir ?t1) ''default'') ''default.py'')
               = Inr (asc ''demo'')"
    by code_simp+
  have py: "demo_py (asc ''demo'') = Some demo_runner" by (simp add: demo_py_def)
  from template_fallback [OF refl a1 c1 a1, of demo_py latin1_alnum work_note] p1 rt rp py
  have res1: "resolve demo_py no_editor ?w1 ?t1
      = Inr (?t1\<lparr>t_template := Some (asc ''# {{ title }}''), t_runner := Some demo_runner,
                 t_resolved := True\<rparr>, ?w1)"
    by blast
  have un1: "\<not> t_resolved ?t1" by (simp add: Template_def)
  have out1: "join_str (render_out latin1_alnum
                 (?t1\<lparr>t_template := Some (asc ''# {{ title }}''), t_runner := Some demo_runner,
                      t_resolved := True\<rparr>) (note_name work_note))
               = Inr (asc ''# work: standup.md'')"
    by code_simp
  have r1: "render_text (render latin1_alnum demo_py no_editor ?w1 ?t1 work_note)
              = Inr (asc ''# work: standup.md'')"
    using un1 by (simp add: render_def res1 out1 render_text_def)
  have a2: "\<not> pair_present (w_fs ?w2) (t_dir ?t2) (nb_name ?nb)"
    and a2': "\<not> pair_present (w_fs ?w2') (t_dir ?t2) (nb_name ?nb)"
    and n2: "\<not> pair_present (w_fs ?w2') (t_dir ?t2) ''default''" by code_simp+
  have y: "yesno ''yes'' [asc ''n''] = (Inr False, [])" by code_simp
  have c2: "(if True then create no_editor ?w2 ?t2 else (Inr None, ?w2)) = (Inr (Some False), ?w2')"
    by (simp add: create_def notes_world_def y)
  from template_fallback [OF refl a2 c2 a2', of demo_py latin1_alnum work_note] n2
  have r2: "render latin1_alnum demo_py no_editor ?w2 ?t2 work_note
              = Inr ([], ?t2\<lparr>t_resolved := True\<rparr>, ?w2')"
    by blast
  from r1 r2 show ?thesis by blast
qed

section \<open>Deletion: facts about removal\<close>

lemma map_of_filter_key:
  "map_of (filter (\<lambda>(k, v). k \<noteq> c) es) a = (if a = c then None else map_of es a)"
  by (induction es) auto

lemma map_of_map_key:
  "map_of (map (\<lambda>(k, v). if k = c then (k, f v) else (k, v)) es) a
     = (if a = c then map_option f (map_of es a) else map_of es a)"
  by (induction es) auto

lemma rm_at_File: "rm_at (File x) q = File x"
  by (cases q) simp_all

lemma rm_at_Nil: "rm_at n [] = n"
  by (cases n) simp_all

lemma walk_rm_parent:
  "walk fs p = Some (Dir es) \<Longrightarrow>
     walk (rm_at fs (p @ [c])) p = Some (Dir (filter (\<lambda>(k, v). k \<noteq> c) es))"
proof (induction p arbitrary: fs)
  case Nil
  then show ?case by simp
next
  case (Cons a p)
  from Cons.prems obtain es0 where fs: "fs = Dir es0" by (cases fs) auto
  from Cons.prems fs obtain m where m: "map_of es0 a = Some m" and w: "walk m p = Some (Dir es)"
    by (auto split: option.splits)
  obtain c' cs where pc: "p @ [c] = c' # cs" by (cases "p @ [c]") auto
  have "rm_at fs (a # p @ [c]) = Dir (map (\<lambda>(k, v). if k = a then (k, rm_at v (p @ [c])) else (k, v)) es0)"
    unfolding fs pc by simp
  with m Cons.IH [OF w] show ?case by (simp add: map_of_map_key)
qed

lemma walk_rm_deeper:
  "walk fs p = Some (Dir es) \<Longrightarrow> q \<noteq> [] \<Longrightarrow>
     \<exists>es'. walk (rm_at fs (p @ c # q)) p = Some (Dir es') \<and> map fst es' = map fst es"
proof (induction p arbitrary: fs)
  case Nil
  then obtain c' cs where "q = c' # cs" by (cases q) auto
  with Nil show ?case by (auto simp: case_prod_beta comp_def intro!: map_cong)
next
  case (Cons a p)
  from Cons.prems obtain es0 where fs: "fs = Dir es0" by (cases fs) auto
  from Cons.prems fs obtain m where m: "map_of es0 a = Some m" and w: "walk m p = Some (Dir es)"
    by (auto split: option.splits)
  obtain c' cs where pc: "p @ c # q = c' # cs" by (cases "p @ c # q") auto
  have "rm_at fs (a # p @ c # q) = Dir (map (\<lambda>(k, v). if k = a then (k, rm_at v (p @ c # q)) else (k, v)) es0)"
    unfolding fs pc by simp
  with m Cons.IH [OF w Cons.prems(2)] show ?case by (simp add: map_of_map_key)
qed

text \<open>
  The node at a place of the pruned tree is the node the tree has at that place,
  pruned.
\<close>

lemma walk_rm_at:
  "walk (rm_at fs q) p = Some n' \<Longrightarrow> \<exists>n q'. walk fs p = Some n \<and> n' = rm_at n q'"
proof (induction p arbitrary: fs q)
  case Nil
  then show ?case by auto
next
  case (Cons a p)
  show ?case
  proof (cases fs)
    case (File x)
    with Cons.prems show ?thesis by (simp add: rm_at_File)
  next
    case (Dir es)
    show ?thesis
    proof (cases q)
      case Nil
      with Cons.prems have "walk fs (a # p) = Some n'" by (simp add: rm_at_Nil)
      moreover have "n' = rm_at n' []" by (simp add: rm_at_Nil)
      ultimately show ?thesis by blast
    next
      case q: (Cons c q')
      show ?thesis
      proof (cases q')
        case Nil
        with Cons.prems Dir q have "walk fs (a # p) = Some n'"
          by (auto simp: map_of_filter_key split: option.splits if_splits)
        moreover have "n' = rm_at n' []" by (simp add: rm_at_Nil)
        ultimately show ?thesis by blast
      next
        case q': (Cons c' cs)
        show ?thesis
        proof (cases "a = c")
          case False
          with Cons.prems Dir q q' have "walk fs (a # p) = Some n'"
            by (auto simp: map_of_map_key split: option.splits)
          moreover have "n' = rm_at n' []" by (simp add: rm_at_Nil)
          ultimately show ?thesis by blast
        next
          case True
          from Cons.prems Dir q q' True obtain m
            where m: "map_of es a = Some m" and w: "walk (rm_at m (c' # cs)) p = Some n'"
            by (auto simp: map_of_map_key split: option.splits)
          from Cons.IH [OF w] m Dir show ?thesis by simp
        qed
      qed
    qed
  qed
qed

lemma rm_at_Dir_names:
  "rm_at n q = Dir es' \<Longrightarrow> \<exists>es. n = Dir es \<and> fst ` set es' \<subseteq> fst ` set es"
  by (cases "(n, q)" rule: rm_at.cases) (force split: if_splits)+

lemma walk_rm_Dir:
  assumes "walk (rm_at fs q) p = Some (Dir es')"
  shows "\<exists>es. walk fs p = Some (Dir es) \<and> (\<forall>c. map_of es' c \<noteq> None \<longrightarrow> map_of es c \<noteq> None)"
proof -
  from walk_rm_at [OF assms] obtain n q' where w: "walk fs p = Some n" and r: "Dir es' = rm_at n q'"
    by blast
  from rm_at_Dir_names [OF r [symmetric]] obtain es
    where n: "n = Dir es" and sub: "fst ` set es' \<subseteq> fst ` set es" by blast
  have "map_of es c \<noteq> None" if "map_of es' c \<noteq> None" for c
    using that sub by (auto simp: map_of_eq_None_iff)
  with w n show ?thesis by blast
qed

text \<open>A path that resolves in the pruned tree resolves in the tree, to the same place.\<close>

lemma canon_rm_mono:
  "canon (rm_at fs q) acc cs = Some r \<Longrightarrow> canon fs acc cs = Some r"
proof (induction cs arbitrary: acc)
  case Nil
  then show ?case by simp
next
  case (Cons c cs)
  from Cons.prems obtain es' where d': "walk (rm_at fs q) acc = Some (Dir es')"
    by (auto split: option.splits node.splits)
  from walk_rm_Dir [OF d'] obtain es where d: "walk fs acc = Some (Dir es)"
    and keys: "\<forall>c. map_of es' c \<noteq> None \<longrightarrow> map_of es c \<noteq> None" by blast
  show ?case
  proof (cases "c = ''..''")
    case True
    with Cons.prems d' have "canon (rm_at fs q) (butlast acc) cs = Some r" by simp
    from Cons.IH [OF this] True d show ?thesis by simp
  next
    case False
    with Cons.prems d' obtain m' where m': "map_of es' c = Some m'"
      and r: "canon (rm_at fs q) (acc @ [c]) cs = Some r"
      by (auto split: option.splits)
    from keys m' obtain m where "map_of es c = Some m" by auto
    with Cons.IH [OF r] False d show ?thesis by simp
  qed
qed

lemma lookup_rm_mono:
  assumes "lookup (rm_at fs q) p \<noteq> None"
  shows "lookup fs p \<noteq> None"
proof -
  from assms obtain cp n' where ne: "p \<noteq> []" and rp': "realpath (rm_at fs q) p = Some cp"
    and w': "walk (rm_at fs q) cp = Some n'"
    and fl': "(\<exists>x. n' = File x) \<longrightarrow> \<not> dirmark p"
    by (auto simp: lookup_def split: option.splits node.splits if_splits)
  from rp' have rp: "realpath fs p = Some cp" unfolding realpath_def by (rule canon_rm_mono)
  from walk_rm_at [OF w'] obtain n q' where w: "walk fs cp = Some n" and n': "n' = rm_at n q'"
    by blast
  show ?thesis
  proof (cases n)
    case (File x)
    with n' have "n' = File x" by (simp add: rm_at_File)
    with fl' ne rp w File show ?thesis by (simp add: lookup_def)
  next
    case (Dir es)
    with ne rp w show ?thesis by (simp add: lookup_def)
  qed
qed

lemma exists_rm_mono: "exists (rm_at fs q) p \<Longrightarrow> exists fs p"
  unfolding exists_def by (rule lookup_rm_mono)

text \<open>
  Removing a regular file changes no directory but the one that lists it, which loses
  that one entry.
\<close>

lemma walk_rm_file_Dir:
  "walk fs q = Some (File x) \<Longrightarrow> walk fs p = Some (Dir es) \<Longrightarrow>
     \<exists>es'. walk (rm_at fs q) p = Some (Dir es')
          \<and> (\<forall>k. map_of es' k \<noteq> None \<longleftrightarrow> map_of es k \<noteq> None \<and> p @ [k] \<noteq> q)"
proof (induction p arbitrary: fs q)
  case Nil
  then have fs: "fs = Dir es" by simp
  show ?case
  proof (cases q)
    case Nil
    with Nil.prems show ?thesis by simp
  next
    case q: (Cons c q')
    show ?thesis
    proof (cases q')
      case Nil
      with fs q show ?thesis by (auto simp: map_of_filter_key)
    next
      case (Cons c' cs)
      with fs q show ?thesis by (auto simp: map_of_map_key)
    qed
  qed
next
  case (Cons a p)
  from Cons.prems(2) obtain es0 where fs: "fs = Dir es0" by (cases fs) auto
  from Cons.prems(2) fs obtain m where m: "map_of es0 a = Some m"
    and w: "walk m p = Some (Dir es)"
    by (auto split: option.splits)
  show ?case
  proof (cases q)
    case Nil
    with Cons.prems(1) fs show ?thesis by simp
  next
    case q: (Cons c q')
    show ?thesis
    proof (cases q')
      case Nil
      have ac: "a \<noteq> c"
      proof
        assume "a = c"
        with Cons.prems(1) fs q Nil m have "m = File x" by simp
        with w show False by (simp add: walk_File split: if_splits)
      qed
      with fs q Nil m w show ?thesis by (auto simp: map_of_filter_key)
    next
      case q': (Cons c' cs)
      show ?thesis
      proof (cases "a = c")
        case False
        with fs q q' m w show ?thesis by (auto simp: map_of_map_key)
      next
        case True
        from Cons.prems(1) fs q q' True m have "walk m (c' # cs) = Some (File x)" by simp
        from Cons.IH [OF this w] obtain es'
          where "walk (rm_at m (c' # cs)) p = Some (Dir es')"
            and "\<forall>k. map_of es' k \<noteq> None \<longleftrightarrow> map_of es k \<noteq> None \<and> p @ [k] \<noteq> c' # cs"
          by blast
        with fs q q' True m show ?thesis by (auto simp: map_of_map_key)
      qed
    qed
  qed
qed

text \<open>
  A path that does not name the file resolves after the file is removed as it did
  before.
\<close>

lemma canon_rm_file:
  "walk fs q = Some (File x) \<Longrightarrow> canon fs acc cs = Some r \<Longrightarrow> r \<noteq> q \<Longrightarrow>
     canon (rm_at fs q) acc cs = Some r"
proof (induction cs arbitrary: acc)
  case Nil
  then show ?case by simp
next
  case (Cons c cs)
  from Cons.prems(2) obtain es where d: "walk fs acc = Some (Dir es)"
    by (auto split: option.splits node.splits)
  from walk_rm_file_Dir [OF Cons.prems(1) d] obtain es'
    where d': "walk (rm_at fs q) acc = Some (Dir es')"
      and keys: "\<forall>k. map_of es' k \<noteq> None \<longleftrightarrow> map_of es k \<noteq> None \<and> acc @ [k] \<noteq> q"
    by blast
  show ?case
  proof (cases "c = ''..''")
    case True
    with Cons.prems(2) d have "canon fs (butlast acc) cs = Some r" by simp
    from Cons.IH [OF Cons.prems(1) this Cons.prems(3)] True d' show ?thesis by simp
  next
    case False
    with Cons.prems(2) d obtain m where m: "map_of es c = Some m"
      and r: "canon fs (acc @ [c]) cs = Some r"
      by (auto split: option.splits)
    have nq: "acc @ [c] \<noteq> q"
    proof
      assume eq: "acc @ [c] = q"
      show False
      proof (cases cs)
        case Nil
        with r eq Cons.prems(3) show False by simp
      next
        case (Cons c2 cs2)
        with r eq Cons.prems(1) show False by simp
      qed
    qed
    with keys m obtain m' where "map_of es' c = Some m'" by auto
    with Cons.IH [OF Cons.prems(1) r Cons.prems(3)] False d' show ?thesis by simp
  qed
qed

text \<open>Once an entry is removed from the directory a path names, the path joined with
  the entry's name names nothing.\<close>

lemma gone_after_rm:
  assumes "plain_name c" and "realpath fs a = Some ca" and "walk fs ca = Some (Dir es)"
  shows "\<not> exists (rm_at fs (ca @ [c])) (join a c)"
proof
  let ?fs' = "rm_at fs (ca @ [c])"
  assume "exists ?fs' (join a c)"
  then obtain ca' es' where rp': "realpath ?fs' a = Some ca'"
    and w': "walk ?fs' ca' = Some (Dir es')" and m': "map_of es' c \<noteq> None"
    by (auto simp: exists_def lookup_join_plain [OF assms(1)] split: option.splits node.splits)
  from rp' have "realpath fs a = Some ca'" unfolding realpath_def by (rule canon_rm_mono)
  with assms(2) have "ca' = ca" by simp
  with w' walk_rm_parent [OF assms(3), of c]
  have "es' = filter (\<lambda>(k, v). k \<noteq> c) es" by simp
  then have "map_of es' c = None" by (simp add: map_of_filter_key)
  with m' show False by simp
qed

lemma rmtree_join_plain:
  assumes "plain_name c" and "isdir fs (join a c)"
  shows "\<exists>ca es. realpath fs a = Some ca \<and> walk fs ca = Some (Dir es)
           \<and> rmtree fs (join a c) = (None, rm_at fs (ca @ [c]))"
proof -
  from assms(2) obtain ca es where rp: "realpath fs a = Some ca"
    and w: "walk fs ca = Some (Dir es)" and m: "map_of es c \<noteq> None"
    by (auto simp: isdir_def lookup_join_plain [OF assms(1)] split: option.splits node.splits)
  from rp w m have "realpath fs (join a c) = Some (ca @ [c])"
    by (auto simp: realpath_join_plain [OF assms(1)])
  with assms rp w show ?thesis
    by (simp add: rmtree_def ends_in_name_join_plain)
qed

lemma rmtree_not_dir: "\<not> isdir fs p \<Longrightarrow> rmtree fs p = (Some OSError, fs)"
  by (simp add: rmtree_def)

text \<open>What \<^verbatim>\<open>Template.delete\<close> leaves, for a notebook of plain name.\<close>

lemma Template_delete_cases:
  assumes "Template_delete \<lparr>w_fs = fs, w_stdin = inp\<rparr> t = (r, w')"
    and "plain_name (nb_name (t_notebook t))"
    and "ntd = join (t_dir t) (nb_name (t_notebook t))"
  shows "(w_fs w' = fs
          \<or> (\<exists>ca. realpath fs (t_dir t) = Some ca
                 \<and> w_fs w' = rm_at fs (ca @ [nb_name (t_notebook t)])))
       \<and> ((\<exists>inp'. yesno ''yes'' inp = (Inr True, inp')) \<and> r = None \<longrightarrow> \<not> exists (w_fs w') ntd)
       \<and> ((\<exists>inp'. yesno ''yes'' inp = (Inr False, inp')) \<longrightarrow> r = None \<and> w_fs w' = fs)"
proof (cases "exists fs ntd")
  case False
  with assms show ?thesis by (auto simp: Template_delete_def check_directory_def)
next
  case True
  obtain a inp' where y: "yesno ''yes'' inp = (a, inp')" by (cases "yesno ''yes'' inp")
  show ?thesis
  proof (cases a)
    case (Inl e)
    with assms True y show ?thesis by (auto simp: Template_delete_def check_directory_def)
  next
    case (Inr b)
    show ?thesis
    proof (cases b)
      case False
      with assms True y Inr show ?thesis by (auto simp: Template_delete_def check_directory_def)
    next
      case b: True
      show ?thesis
      proof (cases "isdir fs ntd")
        case False
        then have "rmtree fs ntd = (Some OSError, fs)" by (rule rmtree_not_dir)
        with assms True y Inr b show ?thesis
          by (auto simp: Template_delete_def check_directory_def)
      next
        case d: True
        from rmtree_join_plain [OF assms(2) d [unfolded assms(3)]] obtain ca es
          where rp: "realpath fs (t_dir t) = Some ca" and w: "walk fs ca = Some (Dir es)"
            and rm: "rmtree fs ntd = (None, rm_at fs (ca @ [nb_name (t_notebook t)]))"
          unfolding assms(3) by blast
        from gone_after_rm [OF assms(2) rp w]
        have "\<not> exists (rm_at fs (ca @ [nb_name (t_notebook t)])) ntd" unfolding assms(3) .
        with assms True y Inr b rm rp show ?thesis
          by (auto simp: Template_delete_def check_directory_def)
      qed
    qed
  qed
qed

text \<open>The steps of version control leave the tree as it is when every run of git does.\<close>

lemma git_run_keeps:
  "git_keeps_tree (Some g) \<Longrightarrow> git_run g sub p w = (x, w') \<Longrightarrow> w_fs w' = w_fs w"
proof -
  assume k: "git_keeps_tree (Some g)" and r: "git_run g sub p w = (x, w')"
  from k have "w_fs (snd (git_run g sub p w)) = w_fs w" by (simp add: git_keeps_tree_def)
  with r show ?thesis by simp
qed

lemma Git_is_tracked_keeps:
  "git_keeps_tree (Some g) \<Longrightarrow> Git_is_tracked g p w = (x, w') \<Longrightarrow> w_fs w' = w_fs w"
  by (auto simp: Git_is_tracked_def split: prod.splits sum.splits dest: git_run_keeps)

lemma Git_rm_keeps:
  "git_keeps_tree (Some g) \<Longrightarrow> Git_rm g p rec w = (x, w') \<Longrightarrow> w_fs w' = w_fs w"
  by (auto simp: Git_rm_def split: prod.splits sum.splits dest: git_run_keeps)

lemma Git_commit_keeps:
  "git_keeps_tree (Some g) \<Longrightarrow> Git_commit g w = (x, w') \<Longrightarrow> w_fs w' = w_fs w"
  by (auto simp: Git_commit_def split: prod.splits sum.splits dest: git_run_keeps)

lemma single_note_notebook:
  assumes "plain_name name" and "plain_name n"
    and "listdir fs (join tld name) = Inr [n]"
    and "isfile fs (join (join tld name) n)"
  shows "\<exists>ct est x. realpath fs tld = Some ct \<and> walk fs ct = Some (Dir est)
           \<and> map_of est name = Some (Dir [(n, File x)])"
proof -
  from assms(3) obtain es where l: "lookup fs (join tld name) = Some (Dir es)"
    and ns: "map fst es = [n]"
    by (auto simp: listdir_def split: option.splits node.splits)
  from ns obtain m where es: "es = [(n, m)]" by (cases es) auto
  from l obtain ct est where rp: "realpath fs tld = Some ct"
    and w: "walk fs ct = Some (Dir est)" and mo: "map_of est name = Some (Dir es)"
    by (auto simp: lookup_join_plain [OF assms(1)] split: option.splits node.splits)
  have ne: "join tld name \<noteq> []" using assms(1) by (rule join_plain_nonempty)
  from assms(4) l es obtain x where "m = File x"
    by (cases m) (auto simp: isfile_def lookup_child [OF ne assms(2)])
  with rp w mo es show ?thesis by blast
qed

section \<open>Deletion: the claim\<close>

text \<open>
  C9. The claim: confirmed deletion of the only note of a notebook removes the note, the
  notebook's directory and its template storage. The template storage is removed by
  \<^verbatim>\<open>Template.delete\<close>, which asks again: with the answers yes and then no, the note and
  the notebook are gone and the template storage of \<^verbatim>\<open>work\<close> is still there.
\<close>

theorem template_kept_counterexample:
  "listdir template_root (join ''/notes'' ''work'') = Inr [''standup.md'']
   \<and> isfile template_root (join (join ''/notes'' ''work'') ''standup.md'')
   \<and> yesno ''yes'' (w_stdin (notes_world template_root [''y'', ''n''])) = (Inr True, [asc ''n''])
   \<and> fst (delete_note None None (notes_world template_root [''y'', ''n''])
             (mk_notebook ''/notes'' ''work'') ''standup.md'') = None
   \<and> \<not> exists (w_fs (snd (delete_note None None (notes_world template_root [''y'', ''n''])
             (mk_notebook ''/notes'' ''work'') ''standup.md''))) ''/notes/work''
   \<and> isdir (w_fs (snd (delete_note None None (notes_world template_root [''y'', ''n''])
             (mk_notebook ''/notes'' ''work'') ''standup.md''))) ''/notes/templates/work''"
  by code_simp

text \<open>
  C9, as amended. Take a notebook, a directory of plain name under the root, that holds
  exactly one entry, a regular file of plain name, and a run, with or without version
  control, in which no run of git changes the tree. Deleting that note with the prompt
  confirmed removes the note file and the notebook's directory, so that every list a
  later discovery on the same root returns omits the notebook; and with the default
  template directory and a root path that is not empty and has no \<^verbatim>\<open>..\<close> in it,
  discovery does return one. The template storage of the notebook is gone afterwards
  when the call returns and the answer to the next prompt is a yes; when that answer
  is a no, nothing but the note and the notebook is removed, and without version
  control the call returns.
\<close>

theorem delete_last_note:
  assumes "plain_name name" and "plain_name n"
    and "listdir (w_fs w) (join tld name) = Inr [n]"
    and "isfile (w_fs w) (join (join tld name) n)"
    and "yesno ''yes'' (w_stdin w) = (Inr True, inp)"
    and "git_keeps_tree git"
    and "delete_note env_dir git w (mk_notebook tld name) n = (r, w')"
  shows "\<not> exists (w_fs w') (join (join tld name) n)
       \<and> \<not> exists (w_fs w') (join tld name)
       \<and> (\<forall>filt nbs. discover (w_fs w') tld filt = Inr nbs \<longrightarrow> name \<notin> set (map nb_name nbs))
       \<and> (env_dir = None \<and> tld \<noteq> [] \<and> ''..'' \<notin> set (comps tld)
            \<longrightarrow> (\<exists>nbs. discover (w_fs w') tld None = Inr nbs))
       \<and> ((\<exists>inp'. yesno ''yes'' inp = (Inr True, inp')) \<and> r = None
            \<longrightarrow> \<not> exists (w_fs w') (template_storage env_dir tld name))
       \<and> ((\<exists>inp'. yesno ''yes'' inp = (Inr False, inp'))
            \<longrightarrow> w_fs w' = notebook_removed (w_fs w) tld name n \<and> (git = None \<longrightarrow> r = None))"
proof -
  let ?fs = "w_fs w"
  let ?nb = "mk_notebook tld name"
  let ?nbp = "join tld name"
  let ?np = "join ?nbp n"
  let ?t = "Template env_dir ?nb False"
  let ?ntd = "template_storage env_dir tld name"
  from single_note_notebook [OF assms(1,2,3,4)] obtain ct est x
    where rt: "realpath ?fs tld = Some ct" and wt: "walk ?fs ct = Some (Dir est)"
      and mn: "map_of est name = Some (Dir [(n, File x)])" by blast
  let ?cnb = "ct @ [name]"
  let ?fs1 = "rm_at ?fs (?cnb @ [n])"
  let ?fs2 = "rm_at ?fs1 ?cnb"
  have nbne: "?nbp \<noteq> []" using assms(1) by (rule join_plain_nonempty)
  have wnb: "walk ?fs ?cnb = Some (Dir [(n, File x)])" using wt mn by (simp add: walk_snoc)
  have wn: "walk ?fs (?cnb @ [n]) = Some (File x)"
    by (simp only: walk_snoc [of ?fs ?cnb n] wnb) simp
  have rnb: "realpath ?fs ?nbp = Some ?cnb"
    using rt wt mn by (simp add: realpath_join_plain [OF assms(1)])
  have rn: "realpath ?fs ?np = Some (?cnb @ [n])"
    using rnb wnb by (simp add: realpath_join_plain [OF assms(2)])
  have found: "find ?fs ?nb n = Some (Note ?nb n)"
    using assms(4) by (simp add: find_def mk_notebook_def)
  have del: "Note_delete ?fs (Note ?nb n) = Inr ?fs1"
    using assms(4) rn by (simp add: Note_delete_def os_remove_def Note_def mk_notebook_def)
  have "ct \<noteq> ?cnb @ [n]" by simp
  with wn rt have rt1: "realpath ?fs1 tld = Some ct"
    unfolding realpath_def by (intro canon_rm_file)
  have wnb1: "walk ?fs1 ?cnb = Some (Dir [])"
    using walk_rm_parent [OF wnb, of n] by simp
  from wnb1 obtain est1 where wt1: "walk ?fs1 ct = Some (Dir est1)"
    and mn1: "map_of est1 name = Some (Dir [])"
    by (auto simp: walk_snoc split: option.splits node.splits)
  have l1: "lookup ?fs1 ?nbp = Some (Dir [])"
    using rt1 wt1 mn1 by (simp add: lookup_join_plain [OF assms(1)])
  have nn: "note_notebook (Note ?nb n) = ?nb" by (simp add: Note_def)
  have emp: "Notebook_empty ?fs1 ?nb = Inr True"
    using l1 by (simp add: Notebook_empty_def listdir_def mk_notebook_def)
  have d1: "isdir ?fs1 ?nbp" using l1 by (simp add: isdir_def)
  from rmtree_join_plain [OF assms(1) d1] rt1
  have rmt: "rmtree ?fs1 (nb_path ?nb) = (None, ?fs2)"
    by (auto simp: mk_notebook_def)
  have gone2: "\<not> exists ?fs2 ?nbp" using assms(1) rt1 wt1 by (rule gone_after_rm)
  have wt2: "walk ?fs2 ct = Some (Dir (filter (\<lambda>(k, v). k \<noteq> name) est1))"
    using wt1 by (rule walk_rm_parent)
  have fs2: "?fs2 = notebook_removed ?fs tld name n"
    using rnb by (simp add: notebook_removed_def)
  have tnb: "nb_name (t_notebook ?t) = name"
    by (simp add: Template_def mk_notebook_def)
  have ntd: "?ntd = join (t_dir ?t) (nb_name (t_notebook ?t))"
    by (cases env_dir) (simp_all add: template_storage_def Template_def mk_notebook_def)
  obtain rc w2 where td: "Template_delete \<lparr>w_fs = ?fs2, w_stdin = inp\<rparr> ?t = (rc, w2)"
    by (cases "Template_delete \<lparr>w_fs = ?fs2, w_stdin = inp\<rparr> ?t")
  have pn: "plain_name (nb_name (t_notebook ?t))" using assms(1) tnb by simp
  note tc = Template_delete_cases [OF td pn ntd]
  have whole: "delete_note env_dir git w ?nb n =
     (case (rc, w2) of
        (Some e, w2) \<Rightarrow> (Some e, w2)
      | (None, w2) \<Rightarrow>
          (case git of
             None \<Rightarrow> (None, w2)
           | Some g \<Rightarrow>
               (case Git_is_tracked g (note_path (Note ?nb n)) w2 of
                  (Inl e, w3) \<Rightarrow> (Some e, w3)
                | (Inr False, w3) \<Rightarrow> (None, w3)
                | (Inr True, w3) \<Rightarrow>
                    (case git_prompt_delete (w_stdin w3) of
                       (Inl e, inp') \<Rightarrow> (Some e, w3\<lparr>w_stdin := inp'\<rparr>)
                     | (Inr False, inp') \<Rightarrow> (None, w3\<lparr>w_stdin := inp'\<rparr>)
                     | (Inr True, inp') \<Rightarrow>
                         (case Git_rm g (note_path (Note ?nb n)) False (w3\<lparr>w_stdin := inp'\<rparr>) of
                            (Inl e, w4) \<Rightarrow> (Some e, w4)
                          | (Inr status, w4) \<Rightarrow> Git_commit g w4)))))"
    using assms(5) found del emp rmt td
    by (simp add: delete_note_def Notebook_delete_def nn)
  have fin: "w_fs w' = w_fs w2 \<and> (r = None \<longrightarrow> rc = None) \<and> (git = None \<longrightarrow> r = rc)"
  proof (cases rc)
    case (Some e)
    with whole assms(7) show ?thesis by auto
  next
    case None
    show ?thesis
    proof (cases git)
      case g: None
      with None whole assms(7) show ?thesis by auto
    next
      case (Some g)
      with assms(6) have k: "git_keeps_tree (Some g)" by simp
      from None Some whole assms(7) have "w_fs w' = w_fs w2"
        by (auto split: prod.splits sum.splits bool.splits
            dest!: Git_is_tracked_keeps [OF k] Git_rm_keeps [OF k] Git_commit_keeps [OF k])
      with None Some show ?thesis by simp
    qed
  qed
  from tc have two: "w_fs w2 = ?fs2
      \<or> (\<exists>ca. realpath ?fs2 (t_dir ?t) = Some ca \<and> w_fs w2 = rm_at ?fs2 (ca @ [name]))"
    unfolding tnb by blast
  have a: "\<not> exists (w_fs w') ?nbp"
    using two gone2 fin by (auto dest: exists_rm_mono)
  have b: "\<not> exists (w_fs w') ?np"
    using a by (simp add: exists_def lookup_child [OF nbne assms(2)] split: option.splits)
  have c: "name \<notin> set (map nb_name nbs)" if "discover (w_fs w') tld filt = Inr nbs" for filt nbs
  proof
    assume "name \<in> set (map nb_name nbs)"
    with that have "isdir (w_fs w') ?nbp"
      by (auto simp: discover_def discover_loop_eq mk_notebook_def split: sum.splits)
    with a show False by (auto dest: isdir_exists)
  qed
  have d: "\<exists>nbs. discover (w_fs w') tld None = Inr nbs"
    if "env_dir = None" "tld \<noteq> []" "''..'' \<notin> set (comps tld)"
  proof -
    from rt that(3) have ct: "ct = comps tld"
      by (simp add: realpath_plain split: if_splits)
    have "plain_name ''templates''" by (simp add: plain_name_def)
    then have cj: "comps (join tld ''templates'') = ct @ [''templates'']"
      unfolding ct by (rule comps_join_plain)
    have td': "t_dir ?t = join tld ''templates''"
      using that(1) by (simp add: Template_def mk_notebook_def)
    have nd: "''..'' \<notin> set (comps (t_dir ?t))" using that(3) cj ct td' by simp
    have "\<exists>es. walk (w_fs w2) ct = Some (Dir es)"
      using two
    proof
      assume "w_fs w2 = ?fs2"
      with wt2 show ?thesis by simp
    next
      assume "\<exists>ca. realpath ?fs2 (t_dir ?t) = Some ca \<and> w_fs w2 = rm_at ?fs2 (ca @ [name])"
      then obtain ca where rca: "realpath ?fs2 (t_dir ?t) = Some ca"
        and w2: "w_fs w2 = rm_at ?fs2 (ca @ [name])" by blast
      from rca nd have "ca = ct @ [''templates'']"
        by (simp add: realpath_plain td' cj split: if_splits)
      with w2 have "w_fs w2 = rm_at ?fs2 (ct @ ''templates'' # [name])" by simp
      with walk_rm_deeper [OF wt2, of "[name]" "''templates''"] show ?thesis by auto
    qed
    then obtain es where "walk (w_fs w') ct = Some (Dir es)" using fin by auto
    with that(2,3) ct have "lookup (w_fs w') tld = Some (Dir es)"
      by (simp add: lookup_def realpath_plain)
    then show ?thesis by (simp add: discover_def discover_loop_eq listdir_def)
  qed
  have e: "\<not> exists (w_fs w') ?ntd" if "\<exists>inp'. yesno ''yes'' inp = (Inr True, inp')" "r = None"
    using tc that fin by auto
  have f: "w_fs w' = notebook_removed ?fs tld name n \<and> (git = None \<longrightarrow> r = None)"
    if "\<exists>inp'. yesno ''yes'' inp = (Inr False, inp')"
    using tc that fin fs2 by auto
  from a b c d e f show ?thesis by blast
qed

theorem delete_last_note_witness:
  "git_keeps_tree (Some demo_git)
   \<and> yesno ''yes'' [[160, 110], asc ''y'', asc ''n''] = (Inr False, [asc ''y'', asc ''n''])
   \<and> yesno ''yes'' [asc ''y'', asc ''y'', asc ''y''] = (Inr True, [asc ''y'', asc ''y''])
   \<and> fst (delete_note None (Some demo_git) (notes_world template_root [''y'', ''y'', ''y''])
             (mk_notebook ''/notes'' ''work'') ''standup.md'') = None
   \<and> \<not> exists (w_fs (snd (delete_note None (Some demo_git)
             (notes_world template_root [''y'', ''y'', ''y''])
             (mk_notebook ''/notes'' ''work'') ''standup.md''))) ''/notes/work''
   \<and> \<not> exists (w_fs (snd (delete_note None (Some demo_git)
             (notes_world template_root [''y'', ''y'', ''y''])
             (mk_notebook ''/notes'' ''work'') ''standup.md''))) ''/notes/templates/work''
   \<and> discover (w_fs (snd (delete_note None (Some demo_git)
             (notes_world template_root [''y'', ''y'', ''y''])
             (mk_notebook ''/notes'' ''work'') ''standup.md''))) ''/notes'' None
       = Inr [mk_notebook ''/notes'' ''personal'']"
proof -
  let ?w = "notes_world template_root [''y'', ''y'', ''y'']"
  let ?res = "delete_note None (Some demo_git) ?w (mk_notebook ''/notes'' ''work'') ''standup.md''"
  have p1: "plain_name ''work''" and p2: "plain_name ''standup.md''" by code_simp+
  have one: "listdir (w_fs ?w) (join ''/notes'' ''work'') = Inr [''standup.md'']"
    and isf: "isfile (w_fs ?w) (join (join ''/notes'' ''work'') ''standup.md'')"
    by code_simp+
  have y0: "yesno ''yes'' [[160, 110], asc ''y'', asc ''n''] = (Inr False, [asc ''y'', asc ''n''])"
    by code_simp
  have y1': "yesno ''yes'' [asc ''y'', asc ''y'', asc ''y''] = (Inr True, [asc ''y'', asc ''y''])"
    by code_simp
  then have y1: "yesno ''yes'' (w_stdin ?w) = (Inr True, [asc ''y'', asc ''y''])"
    by (simp add: notes_world_def)
  have y2: "yesno ''yes'' [asc ''y'', asc ''y''] = (Inr True, [asc ''y''])" by code_simp
  have k: "git_keeps_tree (Some demo_git)" by (simp add: git_keeps_tree_def demo_git_def)
  have r: "fst ?res = None" by code_simp
  have res: "?res = (fst ?res, snd ?res)" by simp
  have j: "join ''/notes'' ''work'' = ''/notes/work''"
    and t: "template_storage None ''/notes'' ''work'' = ''/notes/templates/work''" by code_simp+
  have d: "discover (w_fs (snd ?res)) ''/notes'' None = Inr [mk_notebook ''/notes'' ''personal'']"
    by code_simp
  from delete_last_note [OF p1 p2 one isf y1 k res] y2 r
  have "\<not> exists (w_fs (snd ?res)) (join ''/notes'' ''work'')"
    and "\<not> exists (w_fs (snd ?res)) (template_storage None ''/notes'' ''work'')"
    by blast+
  with j t d k y0 y1' r show ?thesis by simp
qed

end
